(* ===== verification/Prelude.thy ===== *)
theory Prelude
  imports Main "HOL-Library.AList"
begin

text \<open>
  Shared vocabulary of the development: the error values of the program, the names of the
  basic types, the collections of rewrite and invariant rules the component theories fill,
  and the generic facts on association lists and option values that several of them use.

  Go's \<open>error\<close> interface is compared by identity in this program (\<open>switch err\<close> in
  \<open>public/lobby\<close> and \<open>public/cmd\<close>, \<open>l.reason != ErrLobbyDone\<close> in \<open>internal/lobby\<close>), so each
  package-level error variable is a constructor of one datatype, and errors that come from
  the operating system, a context or a library are \<open>ErrOther\<close> with an identity of their own.
  A Go variable of type \<open>error\<close> is \<open>goerror option\<close>, with \<open>None\<close> for \<open>nil\<close>.
\<close>

type_synonym bytes = string

datatype goerror =
    ErrLobbyBad
  | ErrLobbyBug
  | ErrLobbyDone
  | ErrLobbyIdleTimeout
  | ErrLobbyDisconnected
  | ErrLobbyMaxFails
  | ErrLobbyDowned
  | ErrLobbyStopped
  | ErrLobbyRestarted
  | ErrLobbyTimeout
  | ErrLobbyAdminTimeout
  | ErrExeMinLen
  | ErrSessionMinLen
  | ErrSessionMaxLen
  | ErrMaxFailsMin
  | ErrWatchFiltersUnconfigured
  | ErrWatchPathUnconfigured
  | ErrWatchTickUnconfigured
  | ErrWatchUnconfigured
  | ErrContext nat
  | ErrOther string

section \<open>Rule collections\<close>

named_theorems go_eval \<open>equations that evaluate the Go library functions on literals\<close>
named_theorems frame \<open>fields an operation leaves alone\<close>
named_theorems inv_rules \<open>operations that keep an invariant\<close>

section \<open>Association lists as Go maps\<close>

text \<open>
  A Go map is an association list with distinct keys: \<open>m[k] = v\<close> is \<open>AList.update\<close>,
  \<open>delete(m, k)\<close> is \<open>AList.delete\<close>, \<open>m[k]\<close> is \<open>map_of\<close> and \<open>len(m)\<close> is \<open>length\<close>. The list
  order stands for one iteration order; what does not depend on it is proved so.
\<close>

abbreviation keys :: "('k \<times> 'v) list \<Rightarrow> 'k list" where
  "keys al \<equiv> map fst al"

lemma map_of_update [simp]: "map_of (AList.update k v al) = (map_of al)(k \<mapsto> v)"
  by (rule AList.update_conv')

lemma map_of_delete [simp]: "map_of (AList.delete k al) = (map_of al)(k := None)"
  by (rule AList.delete_conv')

lemma set_keys_update [simp]: "fst ` set (AList.update k v al) = insert k (fst ` set al)"
  by (simp add: dom_map_of_conv_image_fst [symmetric] AList.update_conv')

lemma set_keys_delete [simp]: "fst ` set (AList.delete k al) = fst ` set al - {k}"
  by (simp add: dom_map_of_conv_image_fst [symmetric] AList.delete_conv')

lemma distinct_keys_update [simp]: "distinct (keys al) \<Longrightarrow> distinct (keys (AList.update k v al))"
  by (rule AList.distinct_update)

lemma distinct_keys_delete [simp]: "distinct (keys al) \<Longrightarrow> distinct (keys (AList.delete k al))"
  by (rule AList.distinct_delete)

lemma length_update:
  "length (AList.update k v al) = (if k \<in> fst ` set al then length al else Suc (length al))"
  by (induction al) auto

lemma delete_fresh [simp]: "k \<notin> fst ` set al \<Longrightarrow> AList.delete k al = al"
  by (induction al) auto

lemma update_fresh: "k \<notin> fst ` set al \<Longrightarrow> AList.update k v al = al @ [(k, v)]"
  by (induction al) auto

lemma delete_append: "AList.delete k (xs @ ys) = AList.delete k xs @ AList.delete k ys"
  by (induction xs) auto

lemma length_delete:
  "distinct (keys al) \<Longrightarrow>
    length (AList.delete k al) = (if k \<in> fst ` set al then length al - 1 else length al)"
proof (induction al)
  case Nil
  then show ?case by simp
next
  case (Cons kv al)
  then show ?case
    by (cases kv; cases al) auto
qed

lemma set_update_sub: "set (AList.update k v al) \<subseteq> insert (k, v) (set al)"
  by (induction al) auto

lemma set_delete_sub: "set (AList.delete k al) \<subseteq> set al"
  by (induction al) auto

lemma delete_empty_iff [simp]: "AList.delete k al = [] \<longleftrightarrow> fst ` set al \<subseteq> {k}"
  by (metis Diff_eq_empty_iff image_is_empty set_empty set_keys_delete)

end
