(* ===== verification/GoStrings.thy ===== *)
theory GoStrings
  imports Prelude
begin

text \<open>
  The functions of Go's \<open>bytes\<close> and \<open>strings\<close> packages the program calls. A Go string or
  byte slice is a list of \<open>char\<close>, and an Isabelle \<open>char\<close> is exactly one byte, so lengths
  and indices count bytes as Go's do. White space is Unicode white space in UTF-8, as in
  \<open>bytes.TrimSpace\<close> and \<open>strings.Fields\<close>: \<open>space_runes\<close> lists its encodings, and scanning
  for them byte by byte is exact because no encoding starts with a continuation byte.
\<close>

definition HasPrefix :: "bytes \<Rightarrow> bytes \<Rightarrow> bool" where
  "HasPrefix s p \<longleftrightarrow> take (length p) s = p"

definition HasSuffix :: "bytes \<Rightarrow> bytes \<Rightarrow> bool" where
  "HasSuffix s p \<longleftrightarrow> length p \<le> length s \<and> drop (length s - length p) s = p"

definition TrimPrefix :: "bytes \<Rightarrow> bytes \<Rightarrow> bytes" where
  "TrimPrefix s p = (if HasPrefix s p then drop (length p) s else s)"

definition TrimSuffix :: "bytes \<Rightarrow> bytes \<Rightarrow> bytes" where
  "TrimSuffix s p = (if HasSuffix s p then take (length s - length p) s else s)"

text \<open>\<open>strings.Index\<close>: the first position of \<open>p\<close> in \<open>s\<close>, or -1.\<close>

fun Index :: "bytes \<Rightarrow> bytes \<Rightarrow> int" where
  "Index [] p = (if p = [] then 0 else -1)"
| "Index (c # cs) p =
     (if HasPrefix (c # cs) p then 0
      else let i = Index cs p in if i = -1 then -1 else i + 1)"

definition Contains :: "bytes \<Rightarrow> bytes \<Rightarrow> bool" where
  "Contains s p \<longleftrightarrow> Index s p \<noteq> -1"

definition IndexByte :: "bytes \<Rightarrow> char \<Rightarrow> int" where
  "IndexByte s c = Index s [c]"

text \<open>\<open>strings.Split\<close> and \<open>strings.Join\<close> for a separator of one byte, \<open>ReplaceAll\<close> for an
  old string of one byte, and \<open>TrimLeft\<close>/\<open>TrimRight\<close> for an ASCII cutset.\<close>

fun Split :: "bytes \<Rightarrow> char \<Rightarrow> bytes list" where
  "Split [] sep = [[]]"
| "Split (c # cs) sep =
     (if c = sep then [] # Split cs sep
      else case Split cs sep of [] \<Rightarrow> [[c]] | w # ws \<Rightarrow> (c # w) # ws)"

fun Join :: "bytes list \<Rightarrow> bytes \<Rightarrow> bytes" where
  "Join [] sep = []"
| "Join [w] sep = w"
| "Join (w # ws) sep = w @ sep @ Join ws sep"

definition ReplaceAll :: "bytes \<Rightarrow> char \<Rightarrow> bytes \<Rightarrow> bytes" where
  "ReplaceAll s old new = concat (map (\<lambda>c. if c = old then new else [c]) s)"

definition TrimLeft :: "bytes \<Rightarrow> bytes \<Rightarrow> bytes" where
  "TrimLeft s cutset = dropWhile (\<lambda>c. c \<in> set cutset) s"

definition TrimRight :: "bytes \<Rightarrow> bytes \<Rightarrow> bytes" where
  "TrimRight s cutset = rev (dropWhile (\<lambda>c. c \<in> set cutset) (rev s))"

section \<open>Unicode white space\<close>

definition space_runes :: "bytes list" where
  "space_runes =
     map (\<lambda>n. [char_of n]) [9, 10, 11, 12, 13, 32 :: nat]
     @ [[CHR 0xC2, CHR 0x85], [CHR 0xC2, CHR 0xA0], [CHR 0xE1, CHR 0x9A, CHR 0x80]]
     @ map (\<lambda>n. [CHR 0xE2, CHR 0x80, char_of n]) [0x80 ..< 0x8B :: nat]
     @ [[CHR 0xE2, CHR 0x80, CHR 0xA8], [CHR 0xE2, CHR 0x80, CHR 0xA9],
        [CHR 0xE2, CHR 0x80, CHR 0xAF], [CHR 0xE2, CHR 0x81, CHR 0x9F],
        [CHR 0xE3, CHR 0x80, CHR 0x80]]"

definition lead_space :: "bytes \<Rightarrow> bytes option" where
  "lead_space s = find (HasPrefix s) space_runes"

definition trail_space :: "bytes \<Rightarrow> bytes option" where
  "trail_space s = find (HasSuffix s) space_runes"

lemma space_runes_nonempty: "r \<in> set space_runes \<Longrightarrow> r \<noteq> []"
  by (auto simp: space_runes_def)

lemma lead_space_shorter:
  assumes "lead_space s = Some r"
  shows "length (drop (length r) s) < length s" and "r \<noteq> []" and "s \<noteq> []"
proof -
  from assms have r: "r \<in> set space_runes" and p: "HasPrefix s r"
    by (auto simp: lead_space_def find_Some_iff)
  from r show "r \<noteq> []" by (rule space_runes_nonempty)
  moreover from this p show "s \<noteq> []" by (auto simp: HasPrefix_def)
  ultimately show "length (drop (length r) s) < length s" by (cases r; cases s) auto
qed

lemma trail_space_shorter:
  assumes "trail_space s = Some r"
  shows "length (take (length s - length r) s) < length s"
proof -
  from assms have "r \<in> set space_runes" and "HasSuffix s r"
    by (auto simp: trail_space_def find_Some_iff)
  moreover from this(1) have "r \<noteq> []" by (rule space_runes_nonempty)
  ultimately have "0 < length r" and "length r \<le> length s" by (simp_all add: HasSuffix_def)
  then have "length s - length r < length s" by linarith
  then show ?thesis by simp
qed

function TrimLeftSpace :: "bytes \<Rightarrow> bytes" where
  "TrimLeftSpace s =
     (case lead_space s of None \<Rightarrow> s | Some r \<Rightarrow> TrimLeftSpace (drop (length r) s))"
  by pat_completeness auto
termination
  by (relation "measure length") (auto dest: lead_space_shorter(1))

function TrimRightSpace :: "bytes \<Rightarrow> bytes" where
  "TrimRightSpace s =
     (case trail_space s of None \<Rightarrow> s
      | Some r \<Rightarrow> TrimRightSpace (take (length s - length r) s))"
  by pat_completeness auto
termination
  by (relation "measure length") (auto dest: trail_space_shorter)

declare TrimLeftSpace.simps [simp del] TrimRightSpace.simps [simp del]

definition TrimSpace :: "bytes \<Rightarrow> bytes" where
  "TrimSpace s = TrimRightSpace (TrimLeftSpace s)"

text \<open>\<open>strings.Fields\<close>: the maximal runs of bytes between white space.\<close>

definition flush_field :: "bytes \<Rightarrow> bytes list" where
  "flush_field w = (if w = [] then [] else [w])"

function fields_from :: "bytes \<Rightarrow> bytes \<Rightarrow> bytes list" where
  "fields_from w s =
     (case lead_space s of
        Some r \<Rightarrow> flush_field w @ fields_from [] (drop (length r) s)
      | None \<Rightarrow> (case s of [] \<Rightarrow> flush_field w | c # cs \<Rightarrow> fields_from (w @ [c]) cs))"
  by pat_completeness auto
termination
  by (relation "measure (\<lambda>(w, s). length s)") (auto dest: lead_space_shorter(1))

declare fields_from.simps [simp del]

definition Fields :: "bytes \<Rightarrow> bytes list" where
  "Fields s = fields_from [] s"

section \<open>Facts\<close>

lemma HasPrefix_iff: "HasPrefix s p \<longleftrightarrow> (\<exists>t. s = p @ t)"
  by (auto simp: HasPrefix_def) (metis append_take_drop_id)

lemma HasPrefix_append [simp]: "HasPrefix (p @ t) p"
  by (simp add: HasPrefix_def)

lemma HasPrefix_Nil [simp]: "HasPrefix s []"
  by (simp add: HasPrefix_def)

lemma HasPrefix_Cons [simp]: "HasPrefix (c # s) (d # p) \<longleftrightarrow> c = d \<and> HasPrefix s p"
  by (auto simp: HasPrefix_def)

lemma HasPrefix_Nil_left [simp]: "HasPrefix [] p \<longleftrightarrow> p = []"
  by (auto simp: HasPrefix_def)

lemma HasSuffix_iff: "HasSuffix s p \<longleftrightarrow> (\<exists>t. s = t @ p)"
proof
  assume "HasSuffix s p"
  then have "s = take (length s - length p) s @ p"
    by (auto simp: HasSuffix_def) (metis append_take_drop_id)
  then show "\<exists>t. s = t @ p" ..
next
  assume "\<exists>t. s = t @ p"
  then show "HasSuffix s p" by (auto simp: HasSuffix_def)
qed

lemma TrimPrefix_append [simp]: "TrimPrefix (p @ s) p = s"
  by (simp add: TrimPrefix_def)

lemma TrimPrefix_eq: "TrimPrefix s p \<noteq> s \<Longrightarrow> s = p @ TrimPrefix s p"
  by (auto simp: TrimPrefix_def HasPrefix_iff split: if_splits)

lemma TrimPrefix_changed: "p \<noteq> [] \<Longrightarrow> TrimPrefix s p \<noteq> s \<longleftrightarrow> HasPrefix s p"
  by (auto simp: TrimPrefix_def HasPrefix_iff)

lemma TrimSuffix_append [simp]: "TrimSuffix (s @ p) p = s"
  by (auto simp: TrimSuffix_def HasSuffix_iff)

lemma TrimSuffix_changed: "p \<noteq> [] \<Longrightarrow> TrimSuffix s p \<noteq> s \<longleftrightarrow> HasSuffix s p"
  by (auto simp: TrimSuffix_def HasSuffix_iff)

lemma TrimSuffix_eq: "HasSuffix s p \<Longrightarrow> s = TrimSuffix s p @ p"
  by (auto simp: HasSuffix_iff)

lemma Index_bounds: "Index s p = -1 \<or> 0 \<le> Index s p \<and> Index s p + int (length p) \<le> int (length s)"
proof (induction s)
  case Nil
  then show ?case by simp
next
  case (Cons c s)
  then show ?case
    by (auto simp: Let_def HasPrefix_iff)
       (metis HasPrefix_iff length_Cons length_append of_nat_add of_nat_Suc
              add.commute zle_iff_zadd)
qed

lemma Index_ge: "-1 \<le> Index s p"
  using Index_bounds [of s p] by linarith

lemma Index_found: "Index s p \<noteq> -1 \<Longrightarrow> HasPrefix (drop (nat (Index s p)) s) p"
proof (induction s)
  case Nil
  then show ?case by (simp split: if_splits)
next
  case (Cons c s)
  show ?case
  proof (cases "HasPrefix (c # s) p")
    case True
    then show ?thesis by simp
  next
    case False
    with Cons.prems have i: "Index s p \<noteq> -1" by (auto simp: Let_def split: if_splits)
    then have "0 \<le> Index s p" using Index_bounds [of s p] by linarith
    then have "nat (Index s p + 1) = Suc (nat (Index s p))" by simp
    with False i Cons.IH [OF i] show ?thesis by (simp add: Let_def)
  qed
qed

lemma Index_notfound: "Index s p = -1 \<longleftrightarrow> (\<forall>u v. s \<noteq> u @ p @ v)"
proof (induction s)
  case Nil
  then show ?case by auto
next
  case (Cons c s)
  have step: "Index s p + 1 \<noteq> -1" using Index_ge [of s p] by linarith
  show ?case
  proof (cases "HasPrefix (c # s) p")
    case True
    then obtain v where "c # s = [] @ p @ v" by (auto simp: HasPrefix_iff)
    then have "\<not> (\<forall>u v. c # s \<noteq> u @ p @ v)" by blast
    with True show ?thesis by simp
  next
    case False
    have "(\<forall>u v. c # s \<noteq> u @ p @ v) \<longleftrightarrow> (\<forall>u v. s \<noteq> u @ p @ v)"
    proof (intro iffI allI)
      fix u v assume "\<forall>u v. c # s \<noteq> u @ p @ v"
      then have "c # s \<noteq> (c # u) @ p @ v" by blast
      then show "s \<noteq> u @ p @ v" by simp
    next
      fix u v assume "\<forall>u v. s \<noteq> u @ p @ v"
      with False show "c # s \<noteq> u @ p @ v" by (cases u) (auto simp: HasPrefix_iff)
    qed
    with False step Cons.IH show ?thesis by (auto simp: Let_def)
  qed
qed

lemma Contains_iff: "Contains s p \<longleftrightarrow> (\<exists>u v. s = u @ p @ v)"
  by (simp add: Contains_def Index_notfound)

lemma Split_nonempty [simp]: "Split s sep \<noteq> []"
  by (induction s) (auto split: list.split)

lemma Split_none: "sep \<notin> set s \<Longrightarrow> Split s sep = [s]"
  by (induction s) auto

lemma Join_Split: "Join (Split s sep) [sep] = s"
proof (induction s)
  case Nil
  then show ?case by simp
next
  case (Cons c s)
  obtain w ws where "Split s sep = w # ws" by (cases "Split s sep") simp_all
  with Cons.IH show ?case by (cases ws) auto
qed

lemma Split_no_sep: "w \<in> set (Split s sep) \<Longrightarrow> sep \<notin> set w"
  by (induction s arbitrary: w) (auto split: list.splits if_splits)

lemma ReplaceAll_append: "ReplaceAll (s @ t) old new = ReplaceAll s old new @ ReplaceAll t old new"
  by (simp add: ReplaceAll_def)

lemma ReplaceAll_removes: "old \<notin> set new \<Longrightarrow> old \<notin> set (ReplaceAll s old new)"
  by (auto simp: ReplaceAll_def split: if_splits)

lemma ReplaceAll_none: "old \<notin> set s \<Longrightarrow> ReplaceAll s old new = s"
  by (induction s) (auto simp: ReplaceAll_def)

lemma TrimLeftSpace_suffix: "\<exists>t. s = t @ TrimLeftSpace s"
proof (induction s rule: TrimLeftSpace.induct)
  case (1 s)
  show ?case
  proof (cases "lead_space s")
    case None
    then show ?thesis by (simp add: TrimLeftSpace.simps [of s])
  next
    case (Some r)
    with 1 obtain t where "drop (length r) s = t @ TrimLeftSpace (drop (length r) s)" by blast
    then have "s = (take (length r) s @ t) @ TrimLeftSpace (drop (length r) s)"
      by (metis append.assoc append_take_drop_id)
    with Some have "s = (take (length r) s @ t) @ TrimLeftSpace s"
      by (simp add: TrimLeftSpace.simps [of s])
    then show ?thesis ..
  qed
qed

lemma TrimRightSpace_prefix: "\<exists>t. s = TrimRightSpace s @ t"
proof (induction s rule: TrimRightSpace.induct)
  case (1 s)
  show ?case
  proof (cases "trail_space s")
    case None
    then show ?thesis by (simp add: TrimRightSpace.simps [of s])
  next
    case (Some r)
    let ?s = "take (length s - length r) s"
    from 1 Some obtain t where "?s = TrimRightSpace ?s @ t" by blast
    then have "s = TrimRightSpace ?s @ (t @ drop (length s - length r) s)"
      by (metis append.assoc append_take_drop_id)
    with Some have "s = TrimRightSpace s @ (t @ drop (length s - length r) s)"
      by (simp add: TrimRightSpace.simps [of s])
    then show ?thesis ..
  qed
qed

lemma TrimSpace_sub: "\<exists>u v. s = u @ TrimSpace s @ v"
proof -
  obtain u where u: "s = u @ TrimLeftSpace s" using TrimLeftSpace_suffix by blast
  obtain v where "TrimLeftSpace s = TrimSpace s @ v"
    unfolding TrimSpace_def using TrimRightSpace_prefix by blast
  with u show ?thesis by metis
qed

lemma TrimSpace_nonempty: "TrimSpace s \<noteq> [] \<Longrightarrow> s \<noteq> []"
  using TrimSpace_sub [of s] by auto

end
