(* ===== verification/GoStrconv.thy ===== *)
theory GoStrconv
  imports GoStrings
begin

text \<open>
  \<open>strconv.ParseInt(s, 10, 64)\<close> and \<open>strconv.Itoa\<close>. The parser returns the value and whether
  it failed; the program ignores the error and uses the value, which is 0 on a syntax error
  and the nearest representable value when the number does not fit. \<open>ParseUint\<close> works on an
  accumulator below \<open>2 ^ 64\<close> and stops at the first digit that would overflow it, before it
  looks at the bytes after that digit.
\<close>

abbreviation (input) "max_int64 \<equiv> 9223372036854775807 :: int"
abbreviation (input) "min_int64 \<equiv> - 9223372036854775808 :: int"
abbreviation (input) "max_uint64 \<equiv> 18446744073709551615 :: nat"

datatype num_error = NoError | ErrSyntax | ErrRange

definition digit_val :: "char \<Rightarrow> nat option" where
  "digit_val c =
     (let n = of_char c in if 48 \<le> n \<and> n \<le> 57 then Some (n - 48) else None)"

fun ParseUint_loop :: "nat \<Rightarrow> bytes \<Rightarrow> nat \<times> num_error" where
  "ParseUint_loop n [] = (n, NoError)"
| "ParseUint_loop n (c # cs) =
     (case digit_val c of
        None \<Rightarrow> (0, ErrSyntax)
      | Some d \<Rightarrow>
          if max_uint64 < n * 10 + d then (max_uint64, ErrRange)
          else ParseUint_loop (n * 10 + d) cs)"

definition ParseUint :: "bytes \<Rightarrow> nat \<times> num_error" where
  "ParseUint s = (if s = [] then (0, ErrSyntax) else ParseUint_loop 0 s)"

definition ParseInt :: "bytes \<Rightarrow> int \<times> num_error" where
  "ParseInt s =
     (if s = [] then (0, ErrSyntax)
      else
        let neg = (hd s = CHR ''-'');
            t = (if hd s = CHR ''+'' \<or> hd s = CHR ''-'' then tl s else s);
            (un, e) = ParseUint t
        in if e = ErrSyntax then (0, ErrSyntax)
           else if \<not> neg \<and> 2 ^ 63 \<le> un then (max_int64, ErrRange)
           else if neg \<and> 2 ^ 63 < un then (min_int64, ErrRange)
           else (if neg then - int un else int un, NoError))"

text \<open>The value alone, as in \<open>id, _ := strconv.ParseInt(sid, 10, 64)\<close>.\<close>

definition parse_id :: "bytes \<Rightarrow> int" where
  "parse_id s = fst (ParseInt s)"

definition digit_char :: "nat \<Rightarrow> char" where
  "digit_char d = char_of (48 + d)"

fun dec_digits :: "nat \<Rightarrow> bytes" where
  "dec_digits n = (if n < 10 then [digit_char n] else dec_digits (n div 10) @ [digit_char (n mod 10)])"

declare dec_digits.simps [simp del]

definition Itoa :: "int \<Rightarrow> bytes" where
  "Itoa i = (if i < 0 then CHR ''-'' # dec_digits (nat (- i)) else dec_digits (nat i))"

section \<open>Bounds and the round trip\<close>

lemma digit_val_lt: "digit_val c = Some d \<Longrightarrow> d < 10"
  by (auto simp: digit_val_def Let_def split: if_splits)

lemma ParseUint_loop_bound: "n \<le> max_uint64 \<Longrightarrow> fst (ParseUint_loop n s) \<le> max_uint64"
  by (induction n s rule: ParseUint_loop.induct) (auto split: option.split)

lemma ParseInt_bounds: "min_int64 \<le> fst (ParseInt s) \<and> fst (ParseInt s) \<le> max_int64"
  by (auto simp: ParseInt_def Let_def split: prod.split)

lemma parse_id_bounds: "min_int64 \<le> parse_id s" "parse_id s \<le> max_int64"
  using ParseInt_bounds [of s] by (simp_all add: parse_id_def)

lemma digit_val_digit_char [simp]: "d < 10 \<Longrightarrow> digit_val (digit_char d) = Some d"
  by (simp add: digit_val_def digit_char_def Let_def)

lemma digit_val_sign [simp]: "digit_val CHR ''-'' = None" "digit_val CHR ''+'' = None"
  by (simp_all add: digit_val_def)

lemma digit_char_no_sign: "d < 10 \<Longrightarrow> digit_char d \<noteq> CHR ''-'' \<and> digit_char d \<noteq> CHR ''+''"
  by (metis digit_val_digit_char digit_val_sign option.distinct(1))

lemma dec_digits_nonempty [simp]: "dec_digits n \<noteq> []"
  by (subst dec_digits.simps) simp

lemma dec_digits_chars: "c \<in> set (dec_digits n) \<Longrightarrow> \<exists>d < 10. c = digit_char d"
proof (induction n rule: dec_digits.induct)
  case (1 n)
  then show ?case
    by (cases "n < 10") (auto simp: dec_digits.simps [of n] intro: exI [of _ "n mod 10"])
qed

lemma ParseUint_loop_append:
  assumes "n \<le> max_uint64" and "ParseUint_loop 0 s = (n, NoError)" and "n * 10 + d \<le> max_uint64" and "d < 10"
  shows "ParseUint_loop 0 (s @ [digit_char d]) = (n * 10 + d, NoError)"
proof -
  have "ParseUint_loop k s = (n, NoError) \<Longrightarrow>
      ParseUint_loop k (s @ [digit_char d]) = (n * 10 + d, NoError)" for k
    using assms(3,4) by (induction k s rule: ParseUint_loop.induct) (auto split: option.splits if_splits)
  with assms(2) show ?thesis by blast
qed

lemma ParseUint_dec_digits: "n \<le> max_uint64 \<Longrightarrow> ParseUint (dec_digits n) = (n, NoError)"
proof -
  assume "n \<le> max_uint64"
  then have "ParseUint_loop 0 (dec_digits n) = (n, NoError)"
  proof (induction n rule: dec_digits.induct)
    case (1 n)
    show ?case
    proof (cases "n < 10")
      case True
      then show ?thesis by (simp add: dec_digits.simps [of n])
    next
      case False
      with 1 have "ParseUint_loop 0 (dec_digits (n div 10)) = (n div 10, NoError)" by simp
      then have "ParseUint_loop 0 (dec_digits (n div 10) @ [digit_char (n mod 10)])
          = (n div 10 * 10 + n mod 10, NoError)"
        by (rule ParseUint_loop_append [rotated]) (use 1 in simp_all)
      with False show ?thesis by (simp add: dec_digits.simps [of n])
    qed
  qed
  then show ?thesis by (simp add: ParseUint_def)
qed

lemma hd_dec_digits: "hd (dec_digits n) \<noteq> CHR ''-'' \<and> hd (dec_digits n) \<noteq> CHR ''+''"
proof -
  obtain d where "d < 10" and "hd (dec_digits n) = digit_char d"
    using dec_digits_chars [of "hd (dec_digits n)" n] by auto
  then show ?thesis using digit_char_no_sign by simp
qed

lemma ParseInt_Itoa:
  assumes "min_int64 \<le> i" and "i \<le> max_int64"
  shows "ParseInt (Itoa i) = (i, NoError)"
proof (cases "i < 0")
  case True
  with assms have "ParseUint (dec_digits (nat (- i))) = (nat (- i), NoError)"
    by (intro ParseUint_dec_digits) linarith
  with True assms show ?thesis by (simp add: Itoa_def ParseInt_def)
next
  case False
  with assms have "ParseUint (dec_digits (nat i)) = (nat i, NoError)"
    by (intro ParseUint_dec_digits) linarith
  with False assms show ?thesis by (simp add: Itoa_def ParseInt_def hd_dec_digits)
qed

lemma parse_id_Itoa: "min_int64 \<le> i \<Longrightarrow> i \<le> max_int64 \<Longrightarrow> parse_id (Itoa i) = i"
  by (simp add: parse_id_def ParseInt_Itoa)

text \<open>Evaluation on literals, by rewriting.\<close>

lemma digit_char_eval [go_eval]:
  "digit_char 0 = CHR ''0''" "digit_char 1 = CHR ''1''" "digit_char (Suc 0) = CHR ''1''"
  "digit_char 2 = CHR ''2''"
  "digit_char 3 = CHR ''3''" "digit_char 4 = CHR ''4''" "digit_char 5 = CHR ''5''"
  "digit_char 6 = CHR ''6''" "digit_char 7 = CHR ''7''" "digit_char 8 = CHR ''8''"
  "digit_char 9 = CHR ''9''"
  by code_simp+

lemmas parse_eval [go_eval] = parse_id_def ParseInt_def ParseUint_def digit_val_def Let_def

end
