(* ===== verification/GoTime.thy ===== *)
theory GoTime
  imports GoStrconv
begin

text \<open>
  Go's \<open>time\<close> package as far as the program uses it. A \<open>time.Time\<close> is the number of
  nanoseconds since the zero time (January 1, year 1), so \<open>IsZero\<close> is equality with 0; every
  time the program compares or stores has gone through \<open>UTC()\<close> or JSON, which drop the
  monotonic reading. A \<open>time.Duration\<close> is an \<open>int64\<close> count of nanoseconds: \<open>Sub\<close> saturates
  and \<open>Round\<close> follows the library's code, its overflow branches included.
\<close>

type_synonym time = int
type_synonym duration = int

abbreviation (input) "Nanosecond \<equiv> 1 :: duration"
abbreviation (input) "Microsecond \<equiv> 1000 :: duration"
abbreviation (input) "Millisecond \<equiv> 1000000 :: duration"
abbreviation (input) "Second \<equiv> 1000000000 :: duration"
abbreviation (input) "Minute \<equiv> 60000000000 :: duration"
abbreviation (input) "Hour \<equiv> 3600000000000 :: duration"

definition IsZero :: "time \<Rightarrow> bool" where
  "IsZero t \<longleftrightarrow> t = 0"

definition After :: "time \<Rightarrow> time \<Rightarrow> bool" where
  "After t u \<longleftrightarrow> u < t"

definition Before :: "time \<Rightarrow> time \<Rightarrow> bool" where
  "Before t u \<longleftrightarrow> t < u"

definition Sub :: "time \<Rightarrow> time \<Rightarrow> duration" where
  "Sub t u = (if t - u < min_int64 then min_int64 else if max_int64 < t - u then max_int64 else t - u)"

definition wrap64 :: "int \<Rightarrow> int" where
  "wrap64 x = (x + 2 ^ 63) mod 2 ^ 64 - 2 ^ 63"

definition lessThanHalf :: "duration \<Rightarrow> duration \<Rightarrow> bool" where
  "lessThanHalf x y \<longleftrightarrow> (x mod 2 ^ 64 + x mod 2 ^ 64) mod 2 ^ 64 < y mod 2 ^ 64"

definition trunc_rem :: "int \<Rightarrow> int \<Rightarrow> int" where
  "trunc_rem a b = sgn a * (\<bar>a\<bar> mod \<bar>b\<bar>)"

definition Round :: "duration \<Rightarrow> duration \<Rightarrow> duration" where
  "Round d m =
     (if m \<le> 0 then d
      else let r = trunc_rem d m in
        if d < 0 then
          (let r = - r in
             if lessThanHalf r m then d + r
             else let d1 = wrap64 (d - m + r) in if d1 < d then d1 else min_int64)
        else if lessThanHalf r m then d - r
        else let d1 = wrap64 (d + m - r) in if d < d1 then d1 else max_int64)"

section \<open>Facts\<close>

lemma wrap64_id: "min_int64 \<le> x \<Longrightarrow> x \<le> max_int64 \<Longrightarrow> wrap64 x = x"
  by (simp add: wrap64_def)

lemma wrap64_over:
  assumes "max_int64 < x" and "x \<le> 2 * max_int64"
  shows "wrap64 x = x - 2 ^ 64"
proof -
  have "(x + 2 ^ 63) mod 2 ^ 64 = (x + 2 ^ 63 - 2 ^ 64) mod 2 ^ 64"
    by (rule minus_mod_self2 [symmetric])
  also have "\<dots> = x + 2 ^ 63 - 2 ^ 64" using assms by (intro mod_pos_pos_trivial) simp_all
  finally show ?thesis by (simp add: wrap64_def)
qed

lemma Sub_exact: "min_int64 \<le> t - u \<Longrightarrow> t - u \<le> max_int64 \<Longrightarrow> Sub t u = t - u"
  by (simp add: Sub_def)

lemma Sub_bounds: "min_int64 \<le> Sub t u \<and> Sub t u \<le> max_int64"
  by (simp add: Sub_def)

lemma Sub_mono: "t \<le> t' \<Longrightarrow> Sub t u \<le> Sub t' u"
  by (simp add: Sub_def)

lemma Sub_pos_iff: "0 < Sub t u \<longleftrightarrow> u < t"
  by (simp add: Sub_def)

lemma lessThanHalf_iff: "0 \<le> x \<Longrightarrow> x < y \<Longrightarrow> y \<le> max_int64 \<Longrightarrow> lessThanHalf x y \<longleftrightarrow> 2 * x < y"
  by (simp add: lessThanHalf_def)

text \<open>
  \<open>Round\<close> moves a duration by at most half the unit while the rounded value fits. The unit
  the program rounds idle times to is 100 microseconds.
\<close>

lemma Round_nonneg:
  assumes "0 < m" and "m \<le> max_int64" and "0 \<le> d" and "d \<le> max_int64"
  shows "Round d m = (if 2 * (d mod m) < m then d - d mod m
     else if max_int64 < d + m - d mod m then max_int64 else d + m - d mod m)"
proof -
  have r: "trunc_rem d m = d mod m" using assms(1,3) by (cases "d = 0") (simp_all add: trunc_rem_def)
  have b: "0 \<le> d mod m" "d mod m < m" using assms(1) by simp_all
  with assms(2) have half: "lessThanHalf (d mod m) m \<longleftrightarrow> 2 * (d mod m) < m"
    by (intro lessThanHalf_iff)
  have over: "wrap64 (d + m - d mod m) \<le> d" if "max_int64 < d + m - d mod m"
  proof -
    have "d + m - d mod m \<le> 2 * max_int64" using assms b by linarith
    with that have "wrap64 (d + m - d mod m) = d + m - d mod m - 2 ^ 64" by (rule wrap64_over)
    also have "\<dots> \<le> d" using assms(2) b by simp
    finally show ?thesis .
  qed
  show ?thesis
  proof (cases "max_int64 < d + m - d mod m")
    case True
    with over assms half show ?thesis by (auto simp: Round_def r Let_def)
  next
    case False
    with assms b have "wrap64 (d + m - d mod m) = d + m - d mod m"
      by (intro wrap64_id) linarith+
    with False assms b half show ?thesis by (auto simp: Round_def r Let_def)
  qed
qed

lemma Round_close:
  assumes "0 < m" and "m \<le> max_int64" and "0 \<le> d" and "d \<le> max_int64"
  shows "2 * \<bar>Round d m - d\<bar> \<le> m"
proof -
  have b: "0 \<le> d mod m" "d mod m < m" using assms(1) by simp_all
  show ?thesis
  proof (cases "2 * (d mod m) < m")
    case True
    with b show ?thesis unfolding Round_nonneg [OF assms] by simp
  next
    case False
    with b assms(4) show ?thesis unfolding Round_nonneg [OF assms] by (auto simp: abs_if)
  qed
qed

end
