(* ===== verification/Players.thy ===== *)
theory Players
  imports GoTime
begin

text \<open>
  \<open>internal/lobby/players.go\<close>: who is in the lobby. \<open>p.bots\<close> is the list of the bot ids in
  the Go map (its values are only ever \<open>true\<close>), \<open>p.joins\<close> an association list from id to
  player, and \<open>p.admin\<close> the id of the player the pointer refers to: the pointer is only set to
  players held in \<open>p.joins\<close>, only the pointee's \<open>id\<close> is read, and \<open>id\<close> is never assigned
  after the player is made. A nil dereference of \<open>p.admin\<close> is the value \<open>None\<close>.

  The locale \<open>roster\<close> is what the log scanner relies on; the counts it publishes, and the
  thresholds it watches (1, 9 and 10 players), rest on the laws proved here.
\<close>

record player =
  pl_id :: int
  pl_name :: bytes
  pl_uuid :: bytes

record players =
  p_bots :: "int list"
  p_joins :: "(int \<times> player) list"
  p_admin :: "int option"

definition no_players :: players where
  "no_players = \<lparr>p_bots = [], p_joins = [], p_admin = None\<rparr>"

type_synonym reply = "int \<times> bytes \<times> bytes \<times> bool"

definition not_found :: reply where
  "not_found = (-1, '''', '''', False)"

section \<open>Operations\<close>

fun migrate_loop :: "int option \<Rightarrow> player list \<Rightarrow> int option" where
  "migrate_loop a [] = a"
| "migrate_loop a (pl # pls) =
     migrate_loop (case a of None \<Rightarrow> Some (pl_id pl)
                   | Some i \<Rightarrow> if pl_id pl < i then Some (pl_id pl) else a) pls"

definition migrate :: "int \<Rightarrow> players \<Rightarrow> bool \<times> players" where
  "migrate i p =
     (if p_admin p = None \<or> p_admin p \<noteq> Some i then (False, p)
      else (True, p\<lparr>p_admin := migrate_loop None (map snd (p_joins p))\<rparr>))"

text \<open>Lines 46 to 55 of \<open>set\<close>: the player held for an id, made on first use, with a name and
  uuid that are overwritten only by nonempty ones.\<close>

definition touch :: "int \<Rightarrow> bytes \<Rightarrow> bytes \<Rightarrow> players \<Rightarrow> player" where
  "touch i name uuid p =
     (let pl = (case map_of (p_joins p) i of
                  None \<Rightarrow> \<lparr>pl_id = i, pl_name = '''', pl_uuid = ''''\<rparr>
                | Some q \<Rightarrow> q);
          pl = (if name \<noteq> '''' then pl\<lparr>pl_name := name\<rparr> else pl)
      in if uuid \<noteq> '''' then pl\<lparr>pl_uuid := uuid\<rparr> else pl)"

definition players_set :: "bytes \<Rightarrow> bytes \<Rightarrow> bytes \<Rightarrow> players \<Rightarrow> (reply \<times> players) option" where
  "players_set sid name uuid p =
     (let i = parse_id sid in
      if i < 1 then Some (not_found, p)
      else if i < 1000 then
        Some ((i, '''', '''', False), p\<lparr>p_bots := List.insert i (p_bots p)\<rparr>)
      else
        let pl = touch i name uuid p;
            adm = (if length (p_joins p) = 0 then Some (pl_id pl) else p_admin p);
            p' = p\<lparr>p_joins := AList.update i pl (p_joins p), p_admin := adm\<rparr>
        in case adm of
             None \<Rightarrow> None
           | Some a \<Rightarrow> Some ((pl_id pl, pl_name pl, pl_uuid pl, pl_id pl = a), p'))"

definition Add :: "bytes \<Rightarrow> players \<Rightarrow> (reply \<times> players) option" where
  "Add sid p = players_set sid '''' '''' p"

definition Update :: "bytes \<Rightarrow> bytes \<Rightarrow> bytes \<Rightarrow> players \<Rightarrow> (reply \<times> players) option" where
  "Update sid name uuid p = players_set sid name uuid p"

definition Remove :: "bytes \<Rightarrow> players \<Rightarrow> reply \<times> players" where
  "Remove sid p =
     (let i = parse_id sid in
      if i \<in> set (p_bots p) then
        ((i, '''', '''', False), p\<lparr>p_bots := removeAll i (p_bots p)\<rparr>)
      else case map_of (p_joins p) i of
        Some pl \<Rightarrow>
          let (adm, p') = migrate i (p\<lparr>p_joins := AList.delete i (p_joins p)\<rparr>)
          in ((i, pl_name pl, pl_uuid pl, adm), p')
      | None \<Rightarrow> (not_found, p))"

definition Lookup :: "bytes \<Rightarrow> players \<Rightarrow> reply option" where
  "Lookup sid p =
     (let i = parse_id sid in
      case map_of (p_joins p) i of
        None \<Rightarrow> Some not_found
      | Some pl \<Rightarrow>
          (case p_admin p of
             None \<Rightarrow> None
           | Some a \<Rightarrow> Some (pl_id pl, pl_name pl, pl_uuid pl, pl_id pl = a)))"

definition Count :: "players \<Rightarrow> nat \<times> nat" where
  "Count p = (length (p_joins p), length (p_bots p))"

section \<open>Well-formed rosters\<close>

definition joined :: "players \<Rightarrow> int set" where
  "joined p = fst ` set (p_joins p)"

definition players_ok :: "players \<Rightarrow> bool" where
  "players_ok p \<longleftrightarrow>
     distinct (p_bots p) \<and> (\<forall>i \<in> set (p_bots p). 1 \<le> i \<and> i < 1000)
     \<and> distinct (keys (p_joins p))
     \<and> (\<forall>(i, pl) \<in> set (p_joins p). pl_id pl = i \<and> 1000 \<le> i \<and> i \<le> max_int64)
     \<and> (p_admin p = None \<longleftrightarrow> p_joins p = [])
     \<and> (\<forall>a \<in> set_option (p_admin p). a \<in> joined p)"

lemma joined_upd [simp]:
  "joined (p_admin_update f p) = joined p"
  "joined (p_bots_update g p) = joined p"
  "joined (p_joins_update (\<lambda>_. AList.update i pl (p_joins p)) p) = insert i (joined p)"
  "joined (p_joins_update (\<lambda>_. AList.delete i (p_joins p)) p) = joined p - {i}"
  by (simp_all add: joined_def)

lemma players_okD:
  assumes "players_ok p"
  shows "distinct (p_bots p)" and "\<And>i. i \<in> set (p_bots p) \<Longrightarrow> 1 \<le> i \<and> i < 1000"
    and "distinct (keys (p_joins p))"
    and "\<And>i pl. (i, pl) \<in> set (p_joins p) \<Longrightarrow> pl_id pl = i \<and> 1000 \<le> i \<and> i \<le> max_int64"
    and "p_joins p = [] \<longleftrightarrow> p_admin p = None"
    and "\<And>a. p_admin p = Some a \<Longrightarrow> a \<in> joined p"
  using assms by (auto simp: players_ok_def joined_def)

lemma joined_range: "players_ok p \<Longrightarrow> i \<in> joined p \<Longrightarrow> 1000 \<le> i \<and> i \<le> max_int64"
  by (auto simp: joined_def dest: players_okD(4))

lemma finite_joined [simp]: "finite (joined p)"
  by (simp add: joined_def)

lemma map_of_joined: "map_of (p_joins p) i = None \<longleftrightarrow> i \<notin> joined p"
  by (simp add: joined_def map_of_eq_None_iff image_iff)

lemma map_of_join_id: "players_ok p \<Longrightarrow> map_of (p_joins p) i = Some pl \<Longrightarrow> pl_id pl = i"
  by (auto dest: map_of_SomeD players_okD(4))

lemma Count_joined: "players_ok p \<Longrightarrow> fst (Count p) = card (joined p)"
proof -
  assume "players_ok p"
  then have "card (set (keys (p_joins p))) = length (keys (p_joins p))"
    by (intro distinct_card players_okD(3))
  then show ?thesis by (simp add: Count_def joined_def)
qed

lemma no_players_ok [simp]: "players_ok no_players"
  by (simp add: players_ok_def no_players_def)

subsection \<open>Electing the next admin\<close>

text \<open>The loop of \<open>migrate\<close> finds the smallest id, in whatever order Go ranges over the map.\<close>

lemma migrate_loop_Some:
  "migrate_loop (Some i) pls = Some (Min (insert i (pl_id ` set pls)))"
proof (induction pls arbitrary: i)
  case Nil
  then show ?case by simp
next
  case (Cons pl pls)
  have "Min (insert i (pl_id ` set (pl # pls))) = Min (insert (min (pl_id pl) i) (pl_id ` set pls))"
    by (cases "set pls = {}") (simp_all add: Min_insert min.assoc min.left_commute insert_commute min.commute)
  then show ?case by (simp add: Cons.IH min_def)
qed

lemma migrate_loop_Min:
  "migrate_loop None pls = (if pls = [] then None else Some (Min (pl_id ` set pls)))"
  by (cases pls) (simp_all add: migrate_loop_Some)

lemma migrate_loop_any_order:
  "set pls = set pls' \<Longrightarrow> migrate_loop None pls = migrate_loop None pls'"
  by (cases "pls = []"; cases "pls' = []") (auto simp: migrate_loop_Min)

lemma ids_are_keys:
  "(\<And>i pl. (i, pl) \<in> set al \<Longrightarrow> pl_id pl = i) \<Longrightarrow> pl_id ` snd ` set al = fst ` set al"
  by (simp add: image_image cong: image_cong_simp) (metis (no_types, lifting) image_cong prod.collapse)

section \<open>Every operation keeps the roster well formed\<close>

lemma touch_id: "players_ok p \<Longrightarrow> pl_id (touch i name uuid p) = i"
  by (auto simp: touch_def Let_def split: option.split dest: map_of_join_id)

lemma players_ok_upd:
  assumes "players_ok p" and "1000 \<le> i" and "i \<le> max_int64" and "pl_id pl = i"
    and "a = i \<or> a \<in> joined p"
  shows "players_ok (p\<lparr>p_joins := AList.update i pl (p_joins p), p_admin := Some a\<rparr>)"
  using assms players_okD(1-4) [OF assms(1)] set_update_sub [of i pl "p_joins p"]
  by (auto simp: players_ok_def joined_def)

lemma players_ok_del:
  assumes "players_ok p" and "a = None \<longleftrightarrow> joined p \<subseteq> {i}"
    and "\<And>x. a = Some x \<Longrightarrow> x \<in> joined p - {i}"
  shows "players_ok (p\<lparr>p_joins := AList.delete i (p_joins p), p_admin := a\<rparr>)"
  using assms(2,3) players_okD(1-4) [OF assms(1)] set_delete_sub [of i "p_joins p"]
  by (cases a) (auto simp: players_ok_def joined_def)

lemma players_set_cases:
  assumes "players_ok p"
  obtains r p' where "players_set sid name uuid p = Some (r, p')" and "players_ok p'"
    and "fst r = (if parse_id sid < 1 then -1 else parse_id sid)"
    and "joined p' = (if 1000 \<le> parse_id sid then insert (parse_id sid) (joined p) else joined p)"
    and "set (p_bots p') = (if 1 \<le> parse_id sid \<and> parse_id sid < 1000
           then insert (parse_id sid) (set (p_bots p)) else set (p_bots p))"
    and "p_admin p' = (if 1000 \<le> parse_id sid \<and> joined p = {} then Some (parse_id sid) else p_admin p)"
    and "snd (snd (snd r)) \<longleftrightarrow> 1000 \<le> parse_id sid \<and> p_admin p' = Some (parse_id sid)"
proof -
  note ok = players_okD [OF assms]
  consider "parse_id sid < 1" | "1 \<le> parse_id sid" "parse_id sid < 1000" | "1000 \<le> parse_id sid"
    by linarith
  then show thesis
  proof cases
    case 1
    with assms show thesis
      by (intro that [of not_found p]) (simp_all add: players_set_def Let_def not_found_def)
  next
    case 2
    let ?i = "parse_id sid"
    let ?p = "p\<lparr>p_bots := List.insert ?i (p_bots p)\<rparr>"
    from 2 assms have "players_ok ?p"
      by (simp add: players_ok_def joined_def)
    with 2 show thesis
      by (intro that [of "(?i, '''', '''', False)" ?p])
         (simp_all add: players_set_def Let_def joined_def)
  next
    case 3
    let ?i = "parse_id sid"
    define pl where "pl = touch ?i name uuid p"
    have i: "pl_id pl = ?i" unfolding pl_def by (rule touch_id [OF assms])
    obtain a where a: "(if length (p_joins p) = 0 then Some (pl_id pl) else p_admin p) = Some a"
      using ok(5) by (cases "p_admin p") auto
    let ?p = "p\<lparr>p_joins := AList.update ?i pl (p_joins p), p_admin := Some a\<rparr>"
    have eval: "players_set sid name uuid p = Some ((?i, pl_name pl, pl_uuid pl, ?i = a), ?p)"
      using 3 a i unfolding players_set_def Let_def pl_def [symmetric] by simp
    have "a = ?i \<or> a \<in> joined p"
      using a i ok(6) by (auto split: if_splits)
    with assms 3 i have "players_ok ?p"
      using parse_id_bounds [of sid] by (intro players_ok_upd) auto
    with eval 3 a i show thesis
      by (intro that [of "(?i, pl_name pl, pl_uuid pl, ?i = a)" ?p]) (auto simp: joined_def)
  qed
qed

lemma Remove_cases:
  assumes "players_ok p"
  obtains r p' where "Remove sid p = (r, p')" and "players_ok p'"
    and "fst r = (if parse_id sid \<in> joined p \<union> set (p_bots p) then parse_id sid else -1)"
    and "joined p' = joined p - {parse_id sid}"
    and "set (p_bots p') = set (p_bots p) - {parse_id sid}"
    and "p_admin p' = (if p_admin p = Some (parse_id sid)
           then (if joined p' = {} then None else Some (Min (joined p'))) else p_admin p)"
    and "snd (snd (snd r)) \<longleftrightarrow> p_admin p = Some (parse_id sid)"
proof -
  note ok = players_okD [OF assms]
  let ?i = "parse_id sid"
  have disj: "?i \<in> set (p_bots p) \<Longrightarrow> ?i \<notin> joined p \<and> p_admin p \<noteq> Some ?i"
    using ok(2) [of ?i] ok(6) [of ?i] joined_range [OF assms, of ?i] by auto
  consider "?i \<in> set (p_bots p)" | "?i \<in> joined p" "?i \<notin> set (p_bots p)"
    | "?i \<notin> joined p" "?i \<notin> set (p_bots p)" by blast
  then show thesis
  proof cases
    case 1
    with disj assms show thesis
      by (intro that [of "(?i, '''', '''', False)" "p\<lparr>p_bots := removeAll ?i (p_bots p)\<rparr>"])
         (auto simp: Remove_def Let_def players_ok_def joined_def distinct_removeAll)
  next
    case 2
    then obtain pl where pl: "map_of (p_joins p) ?i = Some pl"
      using map_of_joined [of p ?i] by auto
    let ?q = "p\<lparr>p_joins := AList.delete ?i (p_joins p)\<rparr>"
    have jq: "joined ?q = joined p - {?i}" by simp
    show thesis
    proof (cases "p_admin p = Some ?i")
      case True
      let ?a = "migrate_loop None (map snd (AList.delete ?i (p_joins p)))"
      have ids: "pl_id ` snd ` set (AList.delete ?i (p_joins p)) = joined ?q"
        unfolding joined_def using ok(4) set_delete_sub [of ?i "p_joins p"]
        by (subst ids_are_keys) auto
      have a: "?a = (if joined ?q = {} then None else Some (Min (joined ?q)))"
        unfolding migrate_loop_Min by (simp add: ids) (auto simp: joined_def)
      have ok': "players_ok (?q\<lparr>p_admin := ?a\<rparr>)"
        using assms Min_in [of "joined ?q"] unfolding a jq
        by (auto intro!: players_ok_del)
      have ev: "Remove sid p = ((?i, pl_name pl, pl_uuid pl, True), ?q\<lparr>p_admin := ?a\<rparr>)"
        using 2 True pl by (simp add: Remove_def Let_def migrate_def)
      show thesis
        by (rule that [OF ev ok']) (use 2 True in \<open>simp_all add: a\<close>)
    next
      case False
      obtain a where a: "p_admin p = Some a" "a \<in> joined p"
        using ok(5,6) 2 by (cases "p_admin p") (auto simp: joined_def)
      have "players_ok ?q"
        using ok a False set_delete_sub [of ?i "p_joins p"]
        by (auto simp: players_ok_def joined_def)
      with 2 False pl jq a show thesis
        by (intro that [of "(?i, pl_name pl, pl_uuid pl, False)" ?q])
           (auto simp: Remove_def Let_def migrate_def)
    qed
  next
    case 3
    then have "map_of (p_joins p) ?i = None" "p_admin p \<noteq> Some ?i"
      using ok(6) [of ?i] by (auto simp: map_of_joined)
    with 3 assms show thesis
      by (intro that [of not_found p]) (auto simp: Remove_def Let_def not_found_def)
  qed
qed

lemma players_setD:
  assumes "players_ok p" and "players_set sid name uuid p = Some (r, p')"
  shows "players_ok p'"
    and "fst r = (if parse_id sid < 1 then -1 else parse_id sid)"
    and "joined p' = (if 1000 \<le> parse_id sid then insert (parse_id sid) (joined p) else joined p)"
    and "set (p_bots p') = (if 1 \<le> parse_id sid \<and> parse_id sid < 1000
           then insert (parse_id sid) (set (p_bots p)) else set (p_bots p))"
    and "p_admin p' = (if 1000 \<le> parse_id sid \<and> joined p = {} then Some (parse_id sid) else p_admin p)"
    and "snd (snd (snd r)) \<longleftrightarrow> 1000 \<le> parse_id sid \<and> p_admin p' = Some (parse_id sid)"
  by (rule players_set_cases [OF assms(1), of sid name uuid]; use assms(2) in simp)+

lemma RemoveD:
  assumes "players_ok p"
  shows "players_ok (snd (Remove sid p))"
    and "fst (fst (Remove sid p)) =
           (if parse_id sid \<in> joined p \<union> set (p_bots p) then parse_id sid else -1)"
    and "joined (snd (Remove sid p)) = joined p - {parse_id sid}"
    and "set (p_bots (snd (Remove sid p))) = set (p_bots p) - {parse_id sid}"
    and "p_admin (snd (Remove sid p)) = (if p_admin p = Some (parse_id sid)
           then (if joined (snd (Remove sid p)) = {} then None
                 else Some (Min (joined (snd (Remove sid p))))) else p_admin p)"
    and "snd (snd (snd (fst (Remove sid p)))) \<longleftrightarrow> p_admin p = Some (parse_id sid)"
  by (rule Remove_cases [OF assms, of sid]; simp)+

lemma players_set_total: "players_ok p \<Longrightarrow> \<exists>r p'. players_set sid n u p = Some (r, p') \<and> players_ok p'"
  by (rule players_set_cases [of p sid n u]) auto

lemma Add_ok [inv_rules]: "players_ok p \<Longrightarrow> \<exists>r p'. Add sid p = Some (r, p') \<and> players_ok p'"
  unfolding Add_def by (rule players_set_total)

lemma Update_ok [inv_rules]: "players_ok p \<Longrightarrow> \<exists>r p'. Update sid n u p = Some (r, p') \<and> players_ok p'"
  unfolding Update_def by (rule players_set_total)

lemma Lookup_ok:
  assumes "players_ok p"
  shows "\<exists>r. Lookup sid p = Some r \<and> (fst r = -1 \<longleftrightarrow> parse_id sid \<notin> joined p)
    \<and> (snd (snd (snd r)) \<longleftrightarrow> p_admin p = Some (parse_id sid))"
proof (cases "map_of (p_joins p) (parse_id sid)")
  case None
  then have "parse_id sid \<notin> joined p" by (simp add: map_of_joined)
  with None players_okD(6) [OF assms] show ?thesis
    by (auto simp: Lookup_def Let_def not_found_def)
next
  case (Some pl)
  then have mem: "parse_id sid \<in> joined p" using map_of_joined [of p "parse_id sid"] by auto
  with players_okD(5) [OF assms] obtain a where "p_admin p = Some a" by (auto simp: joined_def)
  with Some mem map_of_join_id [OF assms Some] joined_range [OF assms mem] show ?thesis
    by (auto simp: Lookup_def Let_def)
qed

section \<open>The interface of the scanner\<close>

text \<open>
  The contract of a roster: adding and removing never fail and keep the roster well formed,
  each reply names the id it concerns (-1 when none), an id below 1000 is a bot and changes no
  player, and any other id enters or leaves the set of players.
\<close>

locale roster =
  fixes add :: "bytes \<Rightarrow> 'p \<Rightarrow> (reply \<times> 'p) option"
    and remove :: "bytes \<Rightarrow> 'p \<Rightarrow> reply \<times> 'p"
    and members :: "'p \<Rightarrow> int set"
    and robots :: "'p \<Rightarrow> int set"
    and admin :: "'p \<Rightarrow> int option"
    and wf :: "'p \<Rightarrow> bool"
  assumes add_total: "wf p \<Longrightarrow> \<exists>r p'. add s p = Some (r, p') \<and> wf p'"
    and add_reply: "wf p \<Longrightarrow> add s p = Some (r, p') \<Longrightarrow>
      fst r = (if parse_id s < 1 then -1 else parse_id s)"
    and add_members: "wf p \<Longrightarrow> add s p = Some (r, p') \<Longrightarrow>
      members p' = (if 1000 \<le> fst r then insert (fst r) (members p) else members p)"
    and remove_wf: "wf p \<Longrightarrow> wf (snd (remove s p))"
    and remove_reply: "wf p \<Longrightarrow> fst (fst (remove s p)) =
      (if parse_id s \<in> members p \<union> robots p then parse_id s else -1)"
    and remove_members: "wf p \<Longrightarrow> members (snd (remove s p)) = members p - {fst (fst (remove s p))}"
    and members_fin: "wf p \<Longrightarrow> finite (members p)"
    and members_ge: "wf p \<Longrightarrow> i \<in> members p \<Longrightarrow> 1000 \<le> i"
    and robots_lt: "wf p \<Longrightarrow> i \<in> robots p \<Longrightarrow> i < 1000"
    and admin_member: "wf p \<Longrightarrow> (case admin p of None \<Rightarrow> members p = {} | Some a \<Rightarrow> a \<in> members p)"
begin

text \<open>A registration adds at most one player, an unregistration takes away at most one.\<close>

lemma add_card:
  assumes "wf p" and "add s p = Some (r, p')"
  shows "card (members p') = card (members p) \<or> card (members p') = Suc (card (members p))"
  using assms members_fin [OF assms(1)] add_members [OF assms] by (auto simp: card_insert_if)

lemma remove_card:
  assumes "wf p"
  shows "card (members (snd (remove s p))) = card (members p)
    \<or> Suc (card (members (snd (remove s p)))) = card (members p)"
proof -
  let ?i = "fst (fst (remove s p))"
  have m: "members (snd (remove s p)) = members p - {?i}" by (rule remove_members [OF assms])
  show ?thesis
  proof (cases "?i \<in> members p")
    case True
    then show ?thesis unfolding m using card_Suc_Diff1 [OF members_fin [OF assms]] by blast
  next
    case False
    then show ?thesis unfolding m by simp
  qed
qed

text \<open>An answer of -1 or of a bot leaves the players as they were.\<close>

lemma remove_members_small:
  assumes "wf p" and "fst (fst (remove s p)) < 1000"
  shows "members (snd (remove s p)) = members p"
proof -
  have "fst (fst (remove s p)) \<notin> members p" using members_ge [OF assms(1)] assms(2) by force
  then show ?thesis using remove_members [OF assms(1), of s] by simp
qed

lemma remove_reply_player:
  "wf p \<Longrightarrow> 1000 \<le> fst (fst (remove s p)) \<Longrightarrow> fst (fst (remove s p)) \<in> members p"
  using remove_reply [of p s] robots_lt [of p "parse_id s"] by (auto split: if_splits)

end

interpretation lobby_roster: roster Add Remove joined "\<lambda>p. set (p_bots p)" p_admin players_ok
proof
  fix p s r p' i
  assume ok: "players_ok p"
  show "\<exists>r p'. Add s p = Some (r, p') \<and> players_ok p'" by (rule Add_ok [OF ok])
  show "players_ok (snd (Remove s p))" by (rule RemoveD(1) [OF ok])
  show rr: "fst (fst (Remove s p)) = (if parse_id s \<in> joined p \<union> set (p_bots p) then parse_id s else -1)"
    by (rule RemoveD(2) [OF ok])
  have "-1 \<notin> joined p" using joined_range [OF ok, of "-1"] by auto
  then show "joined (snd (Remove s p)) = joined p - {fst (fst (Remove s p))}"
    unfolding RemoveD(3) [OF ok] rr by auto
  show "finite (joined p)" by simp
  show "i \<in> joined p \<Longrightarrow> 1000 \<le> i" using joined_range [OF ok] by blast
  show "i \<in> set (p_bots p) \<Longrightarrow> i < 1000" using players_okD(2) [OF ok] by blast
  show "case p_admin p of None \<Rightarrow> joined p = {} | Some a \<Rightarrow> a \<in> joined p"
    using players_okD(5,6) [OF ok] by (auto simp: joined_def split: option.split)
  assume add: "Add s p = Some (r, p')"
  note D = players_setD [OF ok add [unfolded Add_def]]
  show "fst r = (if parse_id s < 1 then -1 else parse_id s)" by (rule D(2))
  show "joined p' = (if 1000 \<le> fst r then insert (fst r) (joined p) else joined p)"
    unfolding D(2,3) by simp
qed

section \<open>Abstract specification\<close>

text \<open>
  What the component promises, without maps, pointers or an iteration order: two finite sets
  of ids and an admin, where the first player to join is the admin and an admin who leaves is
  succeeded by the remaining player with the smallest id.
\<close>

record aroster =
  a_bots :: "int set"
  a_players :: "int set"
  a_admin :: "int option"

definition a_add :: "int \<Rightarrow> aroster \<Rightarrow> aroster" where
  "a_add i r =
     (if i < 1 then r
      else if i < 1000 then r\<lparr>a_bots := insert i (a_bots r)\<rparr>
      else r\<lparr>a_players := insert i (a_players r),
             a_admin := (if a_players r = {} then Some i else a_admin r)\<rparr>)"

definition a_remove :: "int \<Rightarrow> aroster \<Rightarrow> aroster" where
  "a_remove i r =
     (let rest = a_players r - {i} in
      r\<lparr>a_bots := a_bots r - {i}, a_players := rest,
        a_admin := (if a_admin r = Some i
                    then (if rest = {} then None else Some (Min rest)) else a_admin r)\<rparr>)"

definition roster_abs :: "players \<Rightarrow> aroster" where
  "roster_abs p = \<lparr>a_bots = set (p_bots p), a_players = joined p, a_admin = p_admin p\<rparr>"

lemma roster_abs_set:
  "players_ok p \<Longrightarrow> players_set sid n u p = Some (r, p') \<Longrightarrow>
    roster_abs p' = a_add (parse_id sid) (roster_abs p)"
  using players_setD [of p sid n u r p'] by (simp add: roster_abs_def a_add_def)

lemma roster_abs_Remove:
  "players_ok p \<Longrightarrow> roster_abs (snd (Remove sid p)) = a_remove (parse_id sid) (roster_abs p)"
  using RemoveD [of p sid] by (auto simp: roster_abs_def a_remove_def Let_def)

section \<open>Runs of messages\<close>

datatype roster_msg = Arrive bytes | Rename bytes bytes bytes | Leave bytes

fun msg_step :: "roster_msg \<Rightarrow> players \<Rightarrow> players option" where
  "msg_step (Arrive s) p = map_option snd (Add s p)"
| "msg_step (Rename s n u) p = map_option snd (Update s n u p)"
| "msg_step (Leave s) p = Some (snd (Remove s p))"

fun play :: "roster_msg list \<Rightarrow> players \<Rightarrow> players option" where
  "play [] p = Some p"
| "play (x # xs) p = Option.bind (msg_step x p) (play xs)"

fun a_msg :: "roster_msg \<Rightarrow> aroster \<Rightarrow> aroster" where
  "a_msg (Arrive s) = a_add (parse_id s)"
| "a_msg (Rename s n u) = a_add (parse_id s)"
| "a_msg (Leave s) = a_remove (parse_id s)"

fun msg_id :: "roster_msg \<Rightarrow> int" where
  "msg_id (Arrive s) = parse_id s"
| "msg_id (Rename s n u) = parse_id s"
| "msg_id (Leave s) = parse_id s"

lemma msg_step_ok:
  assumes "players_ok p"
  shows "\<exists>p'. msg_step x p = Some p' \<and> players_ok p' \<and> roster_abs p' = a_msg x (roster_abs p)"
proof (cases x)
  case (Arrive s)
  then show ?thesis using Add_ok [OF assms, of s] roster_abs_set [OF assms] by (auto simp: Add_def)
next
  case (Rename s n u)
  then show ?thesis using Update_ok [OF assms, of s n u] roster_abs_set [OF assms]
    by (auto simp: Update_def)
next
  case (Leave s)
  then show ?thesis using RemoveD(1) [OF assms] roster_abs_Remove [OF assms] by simp
qed

lemma play_ok:
  "players_ok p \<Longrightarrow> \<exists>p'. play xs p = Some p' \<and> players_ok p' \<and> roster_abs p' = fold a_msg xs (roster_abs p)"
proof (induction xs arbitrary: p)
  case Nil
  then show ?case by simp
next
  case (Cons x xs)
  then obtain p1 where "msg_step x p = Some p1" "players_ok p1" "roster_abs p1 = a_msg x (roster_abs p)"
    using msg_step_ok by blast
  with Cons.IH [of p1] show ?case by simp
qed

text \<open>The players of an abstract run are the ids whose last message is not a \<open>Leave\<close>.\<close>

fun is_leave :: "roster_msg \<Rightarrow> bool" where
  "is_leave (Leave s) = True"
| "is_leave _ = False"

lemma a_players_run:
  "i \<in> a_players (fold a_msg xs r) \<longleftrightarrow>
    (case filter (\<lambda>x. msg_id x = i) (rev xs) of
       [] \<Rightarrow> i \<in> a_players r | x # _ \<Rightarrow> 1000 \<le> i \<and> \<not> is_leave x)" if "\<forall>j \<in> a_players r. 1000 \<le> j"
  using that
proof (induction xs rule: rev_induct)
  case Nil
  then show ?case by simp
next
  case (snoc x xs)
  then show ?case by (cases x) (auto simp: a_add_def a_remove_def Let_def split: list.splits)
qed

section \<open>Properties\<close>

lemma removeAll_insert_fresh: "i \<notin> set xs \<Longrightarrow> removeAll i (List.insert i xs) = xs"
  by (simp add: removeAll_id)

lemma Remove_after_set:
  assumes ok: "players_ok p" and fresh: "parse_id s \<notin> joined p" "parse_id s \<notin> set (p_bots p)"
    and add: "players_set s n u p = Some (r, p')"
  shows "snd (Remove s p') = p"
proof -
  let ?i = "parse_id s"
  consider "?i < 1" | "1 \<le> ?i" "?i < 1000" | "1000 \<le> ?i" by linarith
  then show ?thesis
  proof cases
    case 1
    with add fresh show ?thesis
      by (auto simp: players_set_def Let_def Remove_def map_of_joined [THEN iffD2])
  next
    case 2
    with add fresh have "p' = p\<lparr>p_bots := List.insert ?i (p_bots p)\<rparr>"
      by (simp add: players_set_def Let_def)
    with fresh show ?thesis by (simp add: Remove_def Let_def removeAll_insert_fresh)
  next
    case 3
    let ?pl = "touch ?i n u p"
    let ?a = "if p_joins p = [] then Some ?i else p_admin p"
    from add 3 touch_id [OF ok, of ?i n u]
    have p': "p' = p\<lparr>p_joins := AList.update ?i ?pl (p_joins p), p_admin := ?a\<rparr>"
      by (auto simp: players_set_def Let_def split: option.splits if_splits)
    have del: "AList.delete ?i (AList.update ?i ?pl (p_joins p)) = p_joins p"
      using fresh(1) by (simp add: update_fresh delete_append joined_def)
    have adm: "p_admin p \<noteq> Some ?i" "p_joins p = [] \<longleftrightarrow> p_admin p = None"
      using players_okD(5,6) [OF ok] fresh(1) by auto
    with fresh(2) show ?thesis
      by (auto simp: Remove_def Let_def p' del migrate_def)
  qed
qed

text \<open>C10. Any sequence of registrations, renames and unregistrations, from the empty roster and
  with any text as the id, runs without a nil dereference, keeps the roster well formed and does
  what the abstract roster does: sets of ids, the first player as admin, the smallest remaining id
  as the successor.\<close>

theorem roster_run_refines:
  "\<exists>p. play xs no_players = Some p \<and> players_ok p
     \<and> roster_abs p = fold a_msg xs \<lparr>a_bots = {}, a_players = {}, a_admin = None\<rparr>"
proof -
  have "roster_abs no_players = \<lparr>a_bots = {}, a_players = {}, a_admin = None\<rparr>"
    by (simp add: roster_abs_def no_players_def joined_def)
  then show ?thesis using play_ok [OF no_players_ok, of xs] by metis
qed

text \<open>C33. When the admin leaves and players remain, the reply says so, the admin is the remaining
  player with the smallest id, and that player is in the lobby; when another player leaves, the
  admin stays.\<close>

theorem admin_succession:
  assumes "players_ok p" and "p_admin p = Some a" and "joined p - {parse_id s} \<noteq> {}"
  shows "snd (snd (snd (fst (Remove s p)))) = (parse_id s = a)
    \<and> p_admin (snd (Remove s p)) = Some (if parse_id s = a then Min (joined p - {a}) else a)
    \<and> the (p_admin (snd (Remove s p))) \<in> joined (snd (Remove s p))"
  using RemoveD [OF assms(1), of s] assms(2,3) players_okD(6) [OF assms(1,2)]
    Min_in [of "joined p - {a}"] by auto

theorem admin_succession_witness:
  "p_admin (snd (Remove ''1005''
     \<lparr>p_bots = [], p_joins = [(1005, \<lparr>pl_id = 1005, pl_name = '''', pl_uuid = ''''\<rparr>),
       (1009, \<lparr>pl_id = 1009, pl_name = '''', pl_uuid = ''''\<rparr>),
       (1007, \<lparr>pl_id = 1007, pl_name = '''', pl_uuid = ''''\<rparr>)], p_admin = Some 1005\<rparr>)) = Some 1007"
proof -
  let ?p = "\<lparr>p_bots = [], p_joins = [(1005, \<lparr>pl_id = 1005, pl_name = '''', pl_uuid = ''''\<rparr>),
       (1009, \<lparr>pl_id = 1009, pl_name = '''', pl_uuid = ''''\<rparr>),
       (1007, \<lparr>pl_id = 1007, pl_name = '''', pl_uuid = ''''\<rparr>)], p_admin = Some 1005\<rparr>"
  have i: "parse_id ''1005'' = 1005" by (simp add: go_eval)
  have "players_ok ?p" by (simp add: players_ok_def joined_def)
  moreover have j: "joined ?p = {1005, 1009, 1007}" by (simp add: joined_def)
  moreover have "{1005, 1009, 1007} - {1005} = {1007, 1009 :: int}" by auto
  ultimately show ?thesis using admin_succession [of ?p 1005 "''1005''"] i by simp
qed

text \<open>Registering an id that is not present and unregistering it again gives back exactly the
  roster there was, admin included; nothing of the visit is left behind.\<close>

theorem register_unregister_roundtrip:
  assumes "players_ok p" and "parse_id s \<notin> joined p" and "parse_id s \<notin> set (p_bots p)"
    and "Add s p = Some (r, p')"
  shows "snd (Remove s p') = p"
  using Remove_after_set [OF assms(1-3)] assms(4) by (simp add: Add_def)

theorem register_unregister_roundtrip_witness:
  "\<exists>r p'. Add ''2000'' no_players = Some (r, p') \<and> p' \<noteq> no_players \<and> snd (Remove ''2000'' p') = no_players"
proof -
  have i: "parse_id ''2000'' = 2000" by (simp add: go_eval)
  obtain r p' where a: "Add ''2000'' no_players = Some (r, p')"
    using Add_ok [OF no_players_ok] by blast
  then have "joined p' \<noteq> joined no_players"
    using players_setD(3) [OF no_players_ok, of "''2000''"] i
    by (auto simp: Add_def no_players_def joined_def)
  moreover have "snd (Remove ''2000'' p') = no_players"
    by (rule register_unregister_roundtrip [OF no_players_ok _ _ a])
       (simp_all add: joined_def no_players_def)
  ultimately show ?thesis using a by blast
qed

text \<open>C34. After any sequence of messages, an id is among the players exactly when it is 1000 or
  more and the last message about it was not an unregistration.\<close>

theorem players_are_last_registered:
  assumes "play xs no_players = Some p"
  shows "i \<in> joined p \<longleftrightarrow>
    (case filter (\<lambda>x. msg_id x = i) (rev xs) of [] \<Rightarrow> False | x # _ \<Rightarrow> 1000 \<le> i \<and> \<not> is_leave x)"
proof -
  have "roster_abs p = fold a_msg xs (roster_abs no_players)"
    using play_ok [OF no_players_ok, of xs] assms by simp
  then have "joined p = a_players (fold a_msg xs (roster_abs no_players))"
    by (metis aroster.select_convs(2) roster_abs_def)
  then show ?thesis
    using a_players_run [of "roster_abs no_players" i xs]
    by (simp add: roster_abs_def no_players_def joined_def split: list.splits)
qed

theorem players_are_last_registered_witness:
  "\<exists>p. play [Arrive ''1500'', Arrive ''7'', Leave ''1500'', Arrive ''1600''] no_players = Some p
     \<and> 1600 \<in> joined p \<and> 1500 \<notin> joined p \<and> 7 \<notin> joined p"
proof -
  let ?xs = "[Arrive ''1500'', Arrive ''7'', Leave ''1500'', Arrive ''1600'']"
  have i: "parse_id ''1500'' = 1500" "parse_id ''7'' = 7" "parse_id ''1600'' = 1600" by (simp_all add: go_eval)
  obtain p where p: "play ?xs no_players = Some p" using play_ok [OF no_players_ok] by blast
  from players_are_last_registered [OF p, of 1600] players_are_last_registered [OF p, of 1500]
    players_are_last_registered [OF p, of 7] p i
  show ?thesis by simp
qed

end
