(* ===== verification/WatchFilters.thy ===== *)
theory WatchFilters
  imports GoTime "HOL-Library.Word" "HOL-Library.Multiset"
begin

unbundle bit_operations_syntax

text \<open>
  The event filters of \<open>internal/watch/watch.go\<close> and the contract of what they feed. An event
  slice is \<open>event list option\<close>, because the code tells a nil slice from an empty one: a nil
  slice with a nil error is the signal that the watch has ended. \<open>fsnotify.Op\<close> is a 32-bit set
  of flags of the third-party package; the one flag the code names, \<open>fsnotify.Create\<close>, is the
  parameter \<open>create\<close>. Go ranges over a map in no fixed order, so \<open>SameNames\<close> takes the order
  as a parameter \<open>ord\<close>, a function that permutes the names.

  The locale \<open>watch_target\<close> is the contract between the watcher and the two structs it keeps
  up to date (the lobby options and the spec): updates of different names commute, so that the
  order \<open>SameNames\<close> picks does not matter.
\<close>

type_synonym op = "32 word"

record event =
  ev_name :: bytes
  ev_op :: op

type_synonym events = "event list option"

fun LockNames :: "op \<Rightarrow> events \<Rightarrow> goerror option \<Rightarrow> events \<times> goerror option" where
  "LockNames create None err = (None, err)"
| "LockNames create (Some evs) err =
     (Some (map (\<lambda>e. let name = TrimSuffix (ev_name e) ''.lock'' in
                  if name \<noteq> ev_name e then \<lparr>ev_name = name, ev_op = create\<rparr> else e) evs), err)"

fun last_events :: "op \<Rightarrow> event list \<Rightarrow> event list" where
  "last_events create [] = []"
| "last_events create (e # es) =
     (let name = TrimPrefix (ev_name e) ''last'' in
      if name \<noteq> ev_name e then \<lparr>ev_name = name, ev_op = create\<rparr> # last_events create es
      else last_events create es)"

fun LastNames :: "op \<Rightarrow> events \<Rightarrow> goerror option \<Rightarrow> events \<times> goerror option" where
  "LastNames create None err = (None, err)"
| "LastNames create (Some evs) err = (Some (evs @ last_events create evs), err)"

text \<open>The map of \<open>SameNames\<close>: each name with the union of the flags of its events.\<close>

fun same_ops :: "(bytes \<times> op) list \<Rightarrow> event list \<Rightarrow> (bytes \<times> op) list" where
  "same_ops m [] = m"
| "same_ops m (e # es) =
     same_ops (AList.update (ev_name e)
       ((case map_of m (ev_name e) of None \<Rightarrow> 0 | Some o1 \<Rightarrow> o1) OR ev_op e) m) es"

fun SameNames :: "((bytes \<times> op) list \<Rightarrow> (bytes \<times> op) list) \<Rightarrow> events \<Rightarrow> goerror option
    \<Rightarrow> events \<times> goerror option" where
  "SameNames ord None err = (None, err)"
| "SameNames ord (Some evs) err =
     (Some (map (\<lambda>(n, o1). \<lparr>ev_name = n, ev_op = o1\<rparr>) (ord (same_ops [] evs))), err)"

section \<open>What each filter does to the names\<close>

definition names_of :: "events \<Rightarrow> bytes set" where
  "names_of evs = ev_name ` set (case evs of None \<Rightarrow> [] | Some es \<Rightarrow> es)"

lemma lock_name:
  "ev_name (let name = TrimSuffix (ev_name e) sfx in
     if name \<noteq> ev_name e then \<lparr>ev_name = name, ev_op = create\<rparr> else e) = TrimSuffix (ev_name e) sfx"
  by (simp add: Let_def)

lemma LockNames_names: "names_of (fst (LockNames create evs err)) = (\<lambda>n. TrimSuffix n ''.lock'') ` names_of evs"
proof (cases evs)
  case None
  then show ?thesis by (simp add: names_of_def)
next
  case (Some es)
  then show ?thesis
    by (simp only: names_of_def LockNames.simps fst_conv option.case set_map image_image lock_name)
qed

lemma last_events_names:
  "ev_name ` set (last_events create es) = {n. ''last'' @ n \<in> ev_name ` set es}"
proof (induction es)
  case Nil
  then show ?case by simp
next
  case (Cons e es)
  show ?case
  proof (cases "HasPrefix (ev_name e) ''last''")
    case True
    then obtain n where n: "ev_name e = ''last'' @ n" by (auto simp: HasPrefix_iff)
    with Cons show ?thesis by (auto simp: Let_def TrimPrefix_def)
  next
    case False
    then have "\<And>n. ''last'' @ n \<noteq> ev_name e" by (auto simp: HasPrefix_iff dest: sym)
    with False Cons show ?thesis by (auto simp: Let_def TrimPrefix_def image_iff)
  qed
qed

lemma LastNames_names:
  "names_of (fst (LastNames create evs err)) = names_of evs \<union> {n. ''last'' @ n \<in> names_of evs}"
  by (cases evs) (simp_all add: names_of_def image_Un last_events_names)

lemma same_ops_keys: "fst ` set (same_ops m es) = fst ` set m \<union> ev_name ` set es"
  by (induction m es rule: same_ops.induct) auto

lemma same_ops_distinct: "distinct (keys m) \<Longrightarrow> distinct (keys (same_ops m es))"
  by (induction m es rule: same_ops.induct) auto

lemma same_ops_flags:
  "map_of (same_ops m es) n =
     (let ops = map ev_op (filter (\<lambda>e. ev_name e = n) es) in
      if ops = [] then map_of m n
      else Some (foldl (OR) (case map_of m n of None \<Rightarrow> 0 | Some o1 \<Rightarrow> o1) ops))"
proof (induction m es rule: same_ops.induct)
  case (1 m)
  then show ?case by simp
next
  case (2 m e es)
  then show ?case by (cases "ev_name e = n") (auto simp: Let_def)
qed

lemma SameNames_names:
  assumes "\<And>al. mset (ord al) = mset al"
  shows "names_of (fst (SameNames ord evs err)) = names_of evs"
    and "distinct (map ev_name (case fst (SameNames ord evs err) of None \<Rightarrow> [] | Some es \<Rightarrow> es))"
proof -
  have s: "set (ord al) = set al" for al using assms by (metis set_mset_mset)
  have d: "distinct (keys al) \<Longrightarrow> distinct (keys (ord al))" for al
    by (metis assms mset_map mset_eq_imp_distinct_iff)
  show "names_of (fst (SameNames ord evs err)) = names_of evs"
    using same_ops_keys [of "[]"] by (cases evs) (force simp: names_of_def s image_image split_def)+
  show "distinct (map ev_name (case fst (SameNames ord evs err) of None \<Rightarrow> [] | Some es \<Rightarrow> es))"
    by (cases evs) (auto simp: comp_def split_def intro: d [OF same_ops_distinct])
qed

section \<open>The contract of a watched struct\<close>

text \<open>
  \<open>upd\<close> is the closure \<open>update\<close> both \<open>Watch\<close> methods build: from a name and the bytes of the
  file (empty when the file is missing) and the value the field had when the watch began
  (\<open>base\<close>) it sets at most one field. \<open>sees\<close> says which names it knows.
\<close>

locale watch_target =
  fixes upd :: "'s \<Rightarrow> bytes \<Rightarrow> bytes \<Rightarrow> 's \<Rightarrow> 's"
    and sees :: "bytes \<Rightarrow> bool"
  assumes upd_commute: "n \<noteq> n' \<Longrightarrow> upd b n c (upd b n' c' s) = upd b n' c' (upd b n c s)"
    and upd_unknown: "\<not> sees n \<Longrightarrow> upd b n c s = s"
    and upd_restore: "upd b n [] (upd b n c s) = upd b n [] s"
    and upd_base: "upd b n [] b = b"
begin

text \<open>The loop of the closing filter, over the names of a batch and the files it reads.\<close>

lemma fold_upd_move:
  "n \<notin> set ns \<Longrightarrow> fold (\<lambda>m. upd b m (rd m)) ns (upd b n c s) = upd b n c (fold (\<lambda>m. upd b m (rd m)) ns s)"
proof (induction ns arbitrary: s)
  case Nil
  then show ?case by simp
next
  case (Cons m ns)
  then show ?case by (simp add: upd_commute [of n m b c "rd m" s, symmetric])
qed

lemma fold_upd_any_order:
  "distinct ns \<Longrightarrow> mset ns = mset ns' \<Longrightarrow>
    fold (\<lambda>m. upd b m (rd m)) ns s = fold (\<lambda>m. upd b m (rd m)) ns' s"
proof (induction ns arbitrary: ns' s)
  case Nil
  then show ?case by simp
next
  case (Cons n ns)
  then have "n \<in> set ns'" by (metis list.set_intros(1) set_mset_mset)
  then obtain us vs where ns': "ns' = us @ n # vs" by (meson split_list)
  with Cons.prems have eq: "mset ns = mset (us @ vs)" and d: "distinct (us @ n # vs)"
    by (simp, metis mset_eq_imp_distinct_iff)
  have "fold (\<lambda>m. upd b m (rd m)) (us @ n # vs) s
      = fold (\<lambda>m. upd b m (rd m)) vs (upd b n (rd n) (fold (\<lambda>m. upd b m (rd m)) us s))" by simp
  also have "\<dots> = fold (\<lambda>m. upd b m (rd m)) (us @ vs) (upd b n (rd n) s)"
    using d by (simp add: fold_upd_move)
  also have "\<dots> = fold (\<lambda>m. upd b m (rd m)) (n # ns) s"
    using Cons.IH [OF _ eq] Cons.prems(1) by simp
  finally show ?case unfolding ns' by (rule sym)
qed

lemma fold_upd_unknown:
  "(\<And>n. n \<in> set ns \<Longrightarrow> \<not> sees n) \<Longrightarrow> fold (\<lambda>m. upd b m (rd m)) ns s = s"
  by (induction ns arbitrary: s) (simp_all add: upd_unknown)

text \<open>A batch that names every touched field after its files are gone restores the start.\<close>

lemma fold_upd_restores:
  "distinct ns \<Longrightarrow> fold (\<lambda>m. upd b m []) ns (fold (\<lambda>m. upd b m (rd m)) ns b) = b"
proof (induction ns)
  case Nil
  then show ?case by simp
next
  case (Cons n ns)
  then have "fold (\<lambda>m. upd b m []) (n # ns) (fold (\<lambda>m. upd b m (rd m)) (n # ns) b)
      = upd b n [] (fold (\<lambda>m. upd b m []) ns (upd b n (rd n) (fold (\<lambda>m. upd b m (rd m)) ns b)))"
    by (simp add: fold_upd_move)
  also have "\<dots> = upd b n [] (upd b n (rd n) b)" using Cons by (simp add: fold_upd_move)
  finally show ?case by (simp add: upd_restore upd_base)
qed

end

end
