(* ===== verification/WatchLoop.thy ===== *)
theory WatchLoop
  imports WatchFilters
begin

text \<open>
  \<open>Watch\<close> of \<open>internal/watch/watch.go\<close>: the filter chain (\<open>apply\<close>), the flush of the pending
  events (\<open>wrap\<close>), the select loop and its debounce ticker. The state is the \<open>events\<close> slice the
  closures share, whether the ticker runs, and the struct the filters update (\<open>'s\<close>). A filter
  may read files and the clock: those readings are the environment \<open>'e\<close>, given anew with every
  signal the loop receives. The path separator is that of Unix.
\<close>

type_synonym ('e, 's) filt = "'e \<Rightarrow> events \<Rightarrow> goerror option \<Rightarrow> 's \<Rightarrow> (events \<times> goerror option) \<times> 's"

definition pure_filter :: "(events \<Rightarrow> goerror option \<Rightarrow> events \<times> goerror option) \<Rightarrow> ('e, 's) filt" where
  "pure_filter f env evs err s = (f evs err, s)"

fun apply_filters :: "('e, 's) filt list \<Rightarrow> 'e \<Rightarrow> bool \<Rightarrow> events \<Rightarrow> goerror option \<Rightarrow> 's \<Rightarrow> 's" where
  "apply_filters [] env ok evs err s = s"
| "apply_filters (f # fs) env ok evs err s =
     (let ((evs, err), s) = f env evs err s in
      if ok \<and> evs = None \<and> err = None then s else apply_filters fs env ok evs err s)"

record 's watch =
  w_events :: "event list"
  w_ticking :: bool
  w_target :: 's

definition wrap :: "('e, 's) filt list \<Rightarrow> 'e \<Rightarrow> goerror option \<Rightarrow> bool \<Rightarrow> 's watch \<Rightarrow> 's watch" where
  "wrap fs env err ok w =
     (let w = (if w_events w \<noteq> [] then
                 w\<lparr>w_ticking := False,
                   w_target := apply_filters fs env True (Some (w_events w)) None (w_target w),
                   w_events := []\<rparr>
               else w);
          w = (if err \<noteq> None then w\<lparr>w_target := apply_filters fs env True None err (w_target w)\<rparr> else w)
      in if \<not> ok then w\<lparr>w_target := apply_filters fs env False None None (w_target w)\<rparr> else w)"

section \<open>The select loop\<close>

datatype signal =
    EventsRecv event
  | EventsClosed
  | ErrorsRecv "goerror option"
  | ErrorsClosed
  | TickRecv time
  | CtxDone goerror

definition zero_event :: event where
  "zero_event = \<lparr>ev_name = '''', ev_op = 0\<rparr>"

fun receive :: "signal \<Rightarrow> event \<times> time \<times> goerror option \<times> bool" where
  "receive (EventsRecv e) = (e, 0, None, True)"
| "receive EventsClosed = (zero_event, 0, None, False)"
| "receive (ErrorsRecv err) = (zero_event, 0, err, True)"
| "receive ErrorsClosed = (zero_event, 0, None, False)"
| "receive (TickRecv t) = (zero_event, t, None, True)"
| "receive (CtxDone err) = (zero_event, 0, Some err, False)"

definition path_split :: "bytes \<Rightarrow> bytes \<times> bytes" where
  "path_split s = (rev (dropWhile (\<lambda>c. c \<noteq> CHR ''/'') (rev s)), rev (takeWhile (\<lambda>c. c \<noteq> CHR ''/'') (rev s)))"

text \<open>The event a notification is recorded as, if it lies under the watched root.\<close>

definition locate :: "(bytes \<times> bytes) list \<Rightarrow> bytes \<Rightarrow> event \<Rightarrow> event option" where
  "locate watches root e =
     (let (head, tail) = path_split (ev_name e) in
      if head = '''' \<or> tail = '''' then None
      else let head = (case map_of watches head of None \<Rightarrow> '''' | Some out \<Rightarrow> out) in
        if \<not> HasPrefix head root then None
        else Some \<lparr>ev_name = TrimPrefix (head @ tail) root, ev_op = ev_op e\<rparr>)"

definition watch_step :: "(bytes \<times> bytes) list \<Rightarrow> bytes \<Rightarrow> ('e, 's) filt list \<Rightarrow> signal \<Rightarrow> 'e
    \<Rightarrow> 's watch \<Rightarrow> bool \<times> 's watch" where
  "watch_step watches root fs sig env w =
     (let (e, now, err, ok) = receive sig in
      if \<not> ok then (False, wrap fs env err False w)
      else if err \<noteq> None \<or> \<not> IsZero now then (True, wrap fs env err True w)
      else case locate watches root e of
        None \<Rightarrow> (True, w)
      | Some ev \<Rightarrow>
          (True, (if w_events w = [] then w\<lparr>w_ticking := True\<rparr> else w)\<lparr>w_events := w_events w @ [ev]\<rparr>))"

text \<open>The loop returns at the first signal that is not \<open>ok\<close>; the flag says whether it has.\<close>

fun watch_run :: "(bytes \<times> bytes) list \<Rightarrow> bytes \<Rightarrow> ('e, 's) filt list \<Rightarrow> (signal \<times> 'e) list
    \<Rightarrow> 's watch \<Rightarrow> bool \<times> 's watch" where
  "watch_run watches root fs [] w = (False, w)"
| "watch_run watches root fs ((sig, env) # sigs) w =
     (let (go, w) = watch_step watches root fs sig env w in
      if go then watch_run watches root fs sigs w else (True, w))"

text \<open>The closure \<open>Watch\<close> returns: the watcher is closed, which closes its channels, and the closure
  waits for the loop to be done. \<open>sigs\<close> is what the loop still receives before it sees that.\<close>

definition watch_cancel :: "(bytes \<times> bytes) list \<Rightarrow> bytes \<Rightarrow> ('e, 's) filt list \<Rightarrow> (signal \<times> 'e) list \<Rightarrow> 'e
    \<Rightarrow> 's watch \<Rightarrow> bool \<times> 's watch" where
  "watch_cancel watches root fs sigs env w = watch_run watches root fs (sigs @ [(EventsClosed, env)]) w"

section \<open>The closing filter of both \<open>Watch\<close> methods\<close>

text \<open>
  The last filter of \<open>Spec.Watch\<close> and of \<open>options.Lobby.Watch\<close>: update the struct for every
  event from the contents of its file, and on the end signal put back the values it had.
  \<open>upd env\<close> is the closure \<open>update\<close>, \<open>rd env\<close> the contents of a file (empty if unreadable).
\<close>

definition consume :: "('e \<Rightarrow> 's \<Rightarrow> bytes \<Rightarrow> bytes \<Rightarrow> 's \<Rightarrow> 's) \<Rightarrow> ('e \<Rightarrow> bytes \<Rightarrow> bytes) \<Rightarrow> 's \<Rightarrow> ('e, 's) filt" where
  "consume upd rd base env evs err s =
     (let s = (case evs of None \<Rightarrow> s
               | Some es \<Rightarrow> fold (\<lambda>e. upd env base (ev_name e) (rd env (ev_name e))) es s)
      in ((evs, err), if evs = None \<and> err = None then base else s))"

definition watch_chain :: "op \<Rightarrow> ((bytes \<times> op) list \<Rightarrow> (bytes \<times> op) list)
    \<Rightarrow> ('e \<Rightarrow> 's \<Rightarrow> bytes \<Rightarrow> bytes \<Rightarrow> 's \<Rightarrow> 's) \<Rightarrow> ('e \<Rightarrow> bytes \<Rightarrow> bytes) \<Rightarrow> 's \<Rightarrow> ('e, 's) filt list" where
  "watch_chain create ord upd rd base =
     [pure_filter (LastNames create), pure_filter (LockNames create), pure_filter (SameNames ord),
      consume upd rd base]"

section \<open>Facts of the loop\<close>

lemma wrap_events [simp]: "w_events (wrap fs env err ok w) = []"
  by (simp add: wrap_def Let_def)

lemma wrap_ticking: "w_ticking (wrap fs env err ok w) = (w_ticking w \<and> w_events w = [])"
  by (simp add: wrap_def Let_def)

lemma chain_end:
  "apply_filters (watch_chain create ord upd rd base) env False None None s = base"
  by (simp add: watch_chain_def pure_filter_def consume_def)

lemma chain_error:
  "apply_filters (watch_chain create ord upd rd base) env True None (Some e) s = s"
  by (simp add: watch_chain_def pure_filter_def consume_def)

lemma wrap_end: "w_target (wrap (watch_chain create ord upd rd base) env err False w) = base"
  by (simp add: wrap_def Let_def chain_end)

lemma wrap_idle:
  "w_events w = [] \<Longrightarrow> wrap (watch_chain create ord upd rd base) env err True w = w"
  by (cases err) (simp_all add: wrap_def Let_def chain_error)

text \<open>While events are pending the ticker runs, so the next tick delivers them.\<close>

definition watch_ok :: "'s watch \<Rightarrow> bool" where
  "watch_ok w \<longleftrightarrow> (w_events w \<noteq> [] \<longrightarrow> w_ticking w)"

lemma watch_step_ok: "watch_ok w \<Longrightarrow> watch_ok (snd (watch_step watches root fs sig env w))"
  by (auto simp: watch_ok_def watch_step_def Let_def split: prod.splits option.splits)

lemma watch_run_ok: "watch_ok w \<Longrightarrow> watch_ok (snd (watch_run watches root fs sigs w))"
proof (induction watches root fs sigs w rule: watch_run.induct)
  case (1 watches root fs w)
  then show ?case by simp
next
  case (2 watches root fs sig env sigs w)
  then show ?case using watch_step_ok [of w watches root fs sig env]
    by (auto simp: Let_def split: prod.split)
qed

lemma watch_run_append:
  "watch_run watches root fs (xs @ ys) w =
     (case watch_run watches root fs xs w of
        (True, w') \<Rightarrow> (True, w') | (False, w') \<Rightarrow> watch_run watches root fs ys w')"
  by (induction watches root fs xs w rule: watch_run.induct) (auto simp: Let_def split: prod.split bool.split)

text \<open>Between two flushes the pending events are the notifications under the root, in order.\<close>

lemma watch_run_collects:
  "watch_run watches root fs (map (\<lambda>e. (EventsRecv e, env e)) es) w =
     (False, w\<lparr>w_ticking := w_ticking w \<or> (w_events w = [] \<and> List.map_filter (locate watches root) es \<noteq> []),
               w_events := w_events w @ List.map_filter (locate watches root) es\<rparr>)"
proof (induction es arbitrary: w)
  case Nil
  then show ?case by (simp add: map_filter_simps)
next
  case (Cons e es)
  then show ?case
    by (cases "locate watches root e") (auto simp: watch_step_def map_filter_simps IsZero_def)
qed

section \<open>A batch reaches the struct whatever order the map is ranged in\<close>

text \<open>The names a batch updates: its own without the \<open>.lock\<close> suffix, and those behind \<open>last\<close>.\<close>

definition batch_names :: "event list \<Rightarrow> bytes set" where
  "batch_names es = (\<lambda>n. TrimSuffix n ''.lock'') `
     (ev_name ` set es \<union> {n. ''last'' @ n \<in> ev_name ` set es})"

lemma fold_events: "fold (\<lambda>e. f (ev_name e)) es = fold f (map ev_name es)"
  by (simp add: fold_map comp_def)

context watch_target
begin

lemma chain_batch:
  assumes perm: "\<And>al. mset (ord al) = mset al"
    and ns: "distinct ns" "set ns = batch_names es"
  shows "apply_filters (watch_chain create ord (\<lambda>env. upd) rd base) env True (Some es) None s
     = fold (\<lambda>n. upd base n (rd env n)) ns s"
proof -
  obtain es1 where e1: "LastNames create (Some es) None = (Some es1, None)" by simp
  obtain es2 where e2: "LockNames create (Some es1) None = (Some es2, None)" by simp
  obtain es3 where e3: "SameNames ord (Some es2) None = (Some es3, None)" by simp
  have n1: "names_of (Some es1) = names_of (Some es) \<union> {n. ''last'' @ n \<in> names_of (Some es)}"
    using LastNames_names [of create "Some es" None] unfolding e1 by simp
  have n2: "names_of (Some es2) = (\<lambda>n. TrimSuffix n ''.lock'') ` names_of (Some es1)"
    using LockNames_names [of create "Some es1" None] unfolding e2 by simp
  have d: "distinct (map ev_name es3)" and n3: "names_of (Some es3) = names_of (Some es2)"
    using SameNames_names [OF perm, where evs = "Some es2" and err = None] unfolding e3 by simp_all
  have "set (map ev_name es3) = set ns"
    using n1 n2 n3 ns(2) by (simp add: names_of_def batch_names_def)
  then have m: "mset (map ev_name es3) = mset ns"
    using set_eq_iff_mset_eq_distinct [OF d ns(1)] by blast
  have "apply_filters (watch_chain create ord (\<lambda>env. upd) rd base) env True (Some es) None s
      = fold (\<lambda>e. upd base (ev_name e) (rd env (ev_name e))) es3 s"
    by (simp add: watch_chain_def pure_filter_def consume_def e1 e2 e3
        del: LastNames.simps LockNames.simps SameNames.simps)
  also have "\<dots> = fold (\<lambda>n. upd base n (rd env n)) (map ev_name es3) s"
    by (simp only: fold_events [of "\<lambda>n. upd base n (rd env n)"])
  also have "\<dots> = fold (\<lambda>n. upd base n (rd env n)) ns s"
    by (rule fold_upd_any_order [OF d m])
  finally show ?thesis .
qed

end

lemma finite_batch_names: "finite (batch_names es)"
proof -
  have "finite ((@) ''last'' -` (ev_name ` set es))" by (rule finite_vimageI) (simp_all add: inj_def)
  then show ?thesis by (simp add: batch_names_def vimage_def)
qed

section \<open>Properties\<close>

definition ends_watch :: "signal \<Rightarrow> bool" where
  "ends_watch sig \<longleftrightarrow> (case receive sig of (_, _, _, ok) \<Rightarrow> \<not> ok)"

lemma watch_step_goes: "fst (watch_step watches root fs sig env w) \<longleftrightarrow> \<not> ends_watch sig"
  by (auto simp: watch_step_def ends_watch_def split: prod.splits option.splits)

lemma watch_run_returns: "fst (watch_run watches root fs sigs w) \<longleftrightarrow> list_ex (\<lambda>(sig, env). ends_watch sig) sigs"
proof (induction sigs arbitrary: w)
  case (Cons x sigs)
  obtain sig env where x: "x = (sig, env)" by (cases x)
  show ?case using Cons.IH watch_step_goes [of watches root fs sig env w] by (auto simp: x Let_def case_prod_unfold)
qed simp

lemma watch_run_restores:
  "watch_run watches root (watch_chain create ord upd rd base) sigs w = (True, w') \<Longrightarrow> w_target w' = base"
proof (induction sigs arbitrary: w)
  case (Cons x sigs)
  obtain sig env where x: "x = (sig, env)" by (cases x)
  obtain go w1 where st: "watch_step watches root (watch_chain create ord upd rd base) sig env w = (go, w1)"
    by (cases "watch_step watches root (watch_chain create ord upd rd base) sig env w")
  show ?case
  proof (cases go)
    case True
    with Cons x st show ?thesis by simp
  next
    case False
    with st have "w_target w1 = base"
      by (auto simp: watch_step_def wrap_end split: prod.splits if_splits option.splits)
    with False Cons.prems x st show ?thesis by simp
  qed
qed simp

text \<open>C26. The watch loop returns with the first signal that ends it and not before, and then the watched
  struct is exactly what it was when the watch began, however it ran and whatever it read; and the
  closure that cancels the watch always comes back, with the struct restored.\<close>

theorem watch_return_restores:
  fixes create ord upd rd base
  defines "fs \<equiv> watch_chain create ord upd rd base"
  shows "(fst (watch_run watches root fs sigs w) \<longleftrightarrow> list_ex (\<lambda>(sig, env). ends_watch sig) sigs)
    \<and> (fst (watch_run watches root fs sigs w) \<longrightarrow> w_target (snd (watch_run watches root fs sigs w)) = base)
    \<and> fst (watch_cancel watches root fs sigs env w) \<and> w_target (snd (watch_cancel watches root fs sigs env w)) = base"
proof -
  have r: "fst (watch_run watches root fs sigs w) \<Longrightarrow> w_target (snd (watch_run watches root fs sigs w)) = base" for sigs
    using watch_run_restores [of watches root create ord upd rd base sigs w] unfolding fs_def by (metis prod.collapse)
  have c: "fst (watch_cancel watches root fs sigs env w)"
    by (simp add: watch_cancel_def watch_run_returns ends_watch_def)
  show ?thesis using r c r [of "sigs @ [(EventsClosed, env)]"] by (simp add: watch_run_returns watch_cancel_def)
qed

theorem watch_return_restores_witness:
  "\<exists>w'. watch_run [(''/d/'', ''/d/'')] ''/d/''
      (watch_chain 1 (\<lambda>al. al) (\<lambda>env base n c s. n # s) (\<lambda>env n. []) [])
      [(EventsRecv \<lparr>ev_name = ''/d/up'', ev_op = 2\<rparr>, ()), (TickRecv 1, ()), (EventsClosed, ())]
      \<lparr>w_events = [], w_ticking = True, w_target = []\<rparr> = (True, w') \<and> w_target w' = []"
proof -
  let ?r = "watch_run [(''/d/'', ''/d/'')] ''/d/''
      (watch_chain 1 (\<lambda>al. al) (\<lambda>env base n c s. n # s) (\<lambda>env n. []) [])
      [(EventsRecv \<lparr>ev_name = ''/d/up'', ev_op = 2\<rparr>, ()), (TickRecv 1, ()), (EventsClosed, ())]
      \<lparr>w_events = [], w_ticking = True, w_target = []\<rparr>"
  obtain ret w' where r: "?r = (ret, w')" by (cases ?r)
  moreover have "fst ?r" by (simp add: watch_step_def IsZero_def split: option.split)
  ultimately have "?r = (True, w')" by simp
  with watch_return_restores [of "[(''/d/'', ''/d/'')]" "''/d/''" 1 "\<lambda>al. al" "\<lambda>env base n c s. n # s" "\<lambda>env n. []" "[]"]
  show ?thesis by (metis fst_conv snd_conv)
qed

text \<open>C27. In every run from an idle watch the ticker runs whenever events are pending, and the
  next tick hands the whole batch to the filters once and leaves nothing pending.\<close>

theorem pending_events_are_delivered:
  assumes "w_events w0 = []" and "watch_run watches root fs sigs w0 = (False, w)" and "w_events w \<noteq> []"
    and "t \<noteq> 0"
  shows "w_ticking w
    \<and> watch_run watches root fs (sigs @ [(TickRecv t, env)]) w0 =
      (False, w\<lparr>w_ticking := False, w_events := [],
                w_target := apply_filters fs env True (Some (w_events w)) None (w_target w)\<rparr>)"
proof
  have "watch_ok w" using watch_run_ok [of w0 watches root fs sigs] assms(1,2) by (simp add: watch_ok_def)
  with assms(3) show "w_ticking w" by (simp add: watch_ok_def)
  show "watch_run watches root fs (sigs @ [(TickRecv t, env)]) w0 =
      (False, w\<lparr>w_ticking := False, w_events := [],
                w_target := apply_filters fs env True (Some (w_events w)) None (w_target w)\<rparr>)"
    using assms by (simp add: watch_run_append watch_step_def IsZero_def wrap_def)
qed



theorem pending_events_are_delivered_witness:
  "let fs = watch_chain 1 (\<lambda>al. al) (\<lambda>env base n c s. n # s) (\<lambda>env n. []) [];
       w0 = \<lparr>w_events = [], w_ticking = False, w_target = []\<rparr>;
       sigs = [(EventsRecv \<lparr>ev_name = ''/d/up.lock'', ev_op = 2\<rparr>, ())]
   in w_target (snd (watch_run [(''/d/'', ''/d/'')] ''/d/'' fs (sigs @ [(TickRecv 1, ())]) w0)) = [''up'']"
proof -
  let ?fs = "watch_chain 1 (\<lambda>al. al) (\<lambda>env base n c s. n # s) (\<lambda>env n. []) []"
  let ?start = "\<lparr>w_events = [], w_ticking = False, w_target = []\<rparr>"
  let ?w = "\<lparr>w_events = [\<lparr>ev_name = ''up.lock'', ev_op = 2\<rparr>], w_ticking = True, w_target = []\<rparr>"
  let ?sigs = "[(EventsRecv \<lparr>ev_name = ''/d/up.lock'', ev_op = 2\<rparr>, ())]"
  have r: "watch_run [(''/d/'', ''/d/'')] ''/d/'' ?fs ?sigs ?start = (False, ?w)"
  proof -
    have "locate [(''/d/'', ''/d/'')] ''/d/'' \<lparr>ev_name = ''/d/up.lock'', ev_op = 2\<rparr>
        = Some \<lparr>ev_name = ''up.lock'', ev_op = 2\<rparr>"
      by (simp add: locate_def path_split_def TrimPrefix_def)
    then show ?thesis by (simp add: watch_step_def IsZero_def)
  qed
  have "watch_run [(''/d/'', ''/d/'')] ''/d/'' ?fs (?sigs @ [(TickRecv 1, ())]) ?start =
      (False, ?w\<lparr>w_ticking := False, w_events := [],
                w_target := apply_filters ?fs () True (Some (w_events ?w)) None (w_target ?w)\<rparr>)"
    using pending_events_are_delivered [OF _ r, of 1 "()"] by simp
  moreover have "apply_filters ?fs () True (Some (w_events ?w)) None (w_target ?w) = [''up'']"
    by (simp add: watch_chain_def pure_filter_def consume_def TrimPrefix_def TrimSuffix_def HasSuffix_def)
  ultimately show ?thesis by simp
qed

end
