(* ===== verification/LobbySpec.thy ===== *)
theory LobbySpec
  imports WatchLoop
begin

text \<open>
  \<open>internal/lobby/spec.go\<close>: the desired status of a lobby, a struct of 17 timestamps set from
  files, and the shutdown reason it implies. A method on a nil receiver is the case \<open>None\<close>.
  \<open>update\<close> is the closure of \<open>Spec.Watch\<close>: the pointers \<open>out\<close> and \<open>in\<close> that its switch sets
  are a \<open>spec_field\<close>, read and written with \<open>get_field\<close> and \<open>set_field\<close>. Decoding a JSON
  timestamp (\<open>json.Unmarshal(bs, out)\<close>, its error ignored) is the parameter \<open>unmarshal\<close>: the
  bytes and the old value of the field give the new one.
\<close>

record spec =
  Up :: time
  FlagUp :: time
  PeerFull :: time
  Down :: time
  FlagDown :: time
  PeerIdle :: time
  ForceDown :: time
  FlagForceDown :: time
  Restart :: time
  FlagRestart :: time
  ForceRestart :: time
  FlagForceRestart :: time
  Stop :: time
  PeerUp :: time
  FlagStop :: time
  ForceStop :: time
  FlagForceStop :: time

section \<open>Reasons\<close>

definition DownAfter :: "spec option \<Rightarrow> time \<Rightarrow> bool" where
  "DownAfter s t =
     (case s of None \<Rightarrow> False
      | Some s \<Rightarrow>
          if After (Down s) t then True
          else if After (FlagDown s) t then True
          else if \<not> IsZero (PeerIdle s) then True
          else False)"

definition ForceDownAfter :: "spec option \<Rightarrow> time \<Rightarrow> bool" where
  "ForceDownAfter s t =
     (case s of None \<Rightarrow> False
      | Some s \<Rightarrow>
          if After (ForceDown s) t then True
          else if After (FlagForceDown s) t then True
          else False)"

definition StopAfter :: "spec option \<Rightarrow> time \<Rightarrow> duration \<Rightarrow> duration \<Rightarrow> bool" where
  "StopAfter s t idle grace =
     (case s of None \<Rightarrow> False
      | Some s \<Rightarrow>
          if idle < grace then False
          else if After (Stop s) t then True
          else if After (FlagStop s) t then True
          else if \<not> IsZero (PeerUp s) then True
          else False)"

definition ForceStopAfter :: "spec option \<Rightarrow> time \<Rightarrow> bool" where
  "ForceStopAfter s t =
     (case s of None \<Rightarrow> False
      | Some s \<Rightarrow>
          if After (ForceStop s) t then True
          else if After (FlagForceStop s) t then True
          else False)"

definition RestartAfter :: "spec option \<Rightarrow> time \<Rightarrow> bool" where
  "RestartAfter s t =
     (case s of None \<Rightarrow> False
      | Some s \<Rightarrow>
          if After (Restart s) t then True
          else if After (FlagRestart s) t then True
          else False)"

definition ForceRestartAfter :: "spec option \<Rightarrow> time \<Rightarrow> bool" where
  "ForceRestartAfter s t =
     (case s of None \<Rightarrow> False
      | Some s \<Rightarrow>
          if After (ForceRestart s) t then True
          else if After (FlagForceRestart s) t then True
          else False)"

definition ReasonAfter :: "spec option \<Rightarrow> time \<Rightarrow> duration \<Rightarrow> duration \<Rightarrow> bool \<times> goerror option" where
  "ReasonAfter s t idle grace =
     (if ForceDownAfter s t then (True, Some ErrLobbyDowned)
      else if ForceStopAfter s t then (True, Some ErrLobbyStopped)
      else if ForceRestartAfter s t then (True, Some ErrLobbyRestarted)
      else if DownAfter s t then (False, Some ErrLobbyDowned)
      else if StopAfter s t idle grace then (False, Some ErrLobbyStopped)
      else if RestartAfter s t then (False, Some ErrLobbyRestarted)
      else (False, None))"

section \<open>Updates from the spec directory\<close>

datatype spec_field =
    FUp | FFlagUp | FPeerFull | FDown | FFlagDown | FPeerIdle | FForceDown | FFlagForceDown
  | FRestart | FFlagRestart | FForceRestart | FFlagForceRestart | FStop | FPeerUp | FFlagStop
  | FForceStop | FFlagForceStop

definition spec_names :: "(bytes \<times> spec_field) list" where
  "spec_names =
     [(''up'', FUp), (''flag/up'', FFlagUp), (''peer/full'', FPeerFull),
      (''down'', FDown), (''flag/down'', FFlagDown), (''peer/idle'', FPeerIdle),
      (''forcedown'', FForceDown), (''flag/forcedown'', FFlagForceDown),
      (''restart'', FRestart), (''flag/restart'', FFlagRestart),
      (''forcerestart'', FForceRestart), (''flag/forcerestart'', FFlagForceRestart),
      (''stop'', FStop), (''peer/up'', FPeerUp), (''flag/stop'', FFlagStop),
      (''forcestop'', FForceStop), (''flag/forcestop'', FFlagForceStop)]"

fun get_field :: "spec_field \<Rightarrow> spec \<Rightarrow> time" where
  "get_field FUp s = Up s"
| "get_field FFlagUp s = FlagUp s"
| "get_field FPeerFull s = PeerFull s"
| "get_field FDown s = Down s"
| "get_field FFlagDown s = FlagDown s"
| "get_field FPeerIdle s = PeerIdle s"
| "get_field FForceDown s = ForceDown s"
| "get_field FFlagForceDown s = FlagForceDown s"
| "get_field FRestart s = Restart s"
| "get_field FFlagRestart s = FlagRestart s"
| "get_field FForceRestart s = ForceRestart s"
| "get_field FFlagForceRestart s = FlagForceRestart s"
| "get_field FStop s = Stop s"
| "get_field FPeerUp s = PeerUp s"
| "get_field FFlagStop s = FlagStop s"
| "get_field FForceStop s = ForceStop s"
| "get_field FFlagForceStop s = FlagForceStop s"

fun set_field :: "spec_field \<Rightarrow> time \<Rightarrow> spec \<Rightarrow> spec" where
  "set_field FUp v s = s\<lparr>Up := v\<rparr>"
| "set_field FFlagUp v s = s\<lparr>FlagUp := v\<rparr>"
| "set_field FPeerFull v s = s\<lparr>PeerFull := v\<rparr>"
| "set_field FDown v s = s\<lparr>Down := v\<rparr>"
| "set_field FFlagDown v s = s\<lparr>FlagDown := v\<rparr>"
| "set_field FPeerIdle v s = s\<lparr>PeerIdle := v\<rparr>"
| "set_field FForceDown v s = s\<lparr>ForceDown := v\<rparr>"
| "set_field FFlagForceDown v s = s\<lparr>FlagForceDown := v\<rparr>"
| "set_field FRestart v s = s\<lparr>Restart := v\<rparr>"
| "set_field FFlagRestart v s = s\<lparr>FlagRestart := v\<rparr>"
| "set_field FForceRestart v s = s\<lparr>ForceRestart := v\<rparr>"
| "set_field FFlagForceRestart v s = s\<lparr>FlagForceRestart := v\<rparr>"
| "set_field FStop v s = s\<lparr>Stop := v\<rparr>"
| "set_field FPeerUp v s = s\<lparr>PeerUp := v\<rparr>"
| "set_field FFlagStop v s = s\<lparr>FlagStop := v\<rparr>"
| "set_field FForceStop v s = s\<lparr>ForceStop := v\<rparr>"
| "set_field FFlagForceStop v s = s\<lparr>FlagForceStop := v\<rparr>"

text \<open>The body of \<open>update\<close> once the field is known: a file that is empty or missing restores the
  field, a file of one newline stamps it with the clock, anything else is decoded.\<close>

definition spec_value :: "(bytes \<Rightarrow> time \<Rightarrow> time) \<Rightarrow> time \<Rightarrow> bytes \<Rightarrow> time \<Rightarrow> time \<Rightarrow> time" where
  "spec_value unmarshal now bs old base =
     (let nl = (length bs \<noteq> 0 \<and> last bs = CHR 0x0A);
          bs = (if nl then butlast bs else bs)
      in if \<not> nl \<and> length bs = 0 then base
         else if nl \<and> length bs = 0 then now
         else unmarshal bs old)"

definition spec_update :: "(bytes \<Rightarrow> time \<Rightarrow> time) \<Rightarrow> time \<Rightarrow> spec \<Rightarrow> bytes \<Rightarrow> bytes \<Rightarrow> spec \<Rightarrow> spec" where
  "spec_update unmarshal now base name bs s =
     (case map_of spec_names name of
        None \<Rightarrow> s
      | Some f \<Rightarrow> set_field f (spec_value unmarshal now bs (get_field f s) (get_field f base)) s)"

text \<open>\<open>Spec.Watch\<close>: the chain it gives to the watcher, over the spec as it is at the call.\<close>

definition spec_chain :: "op \<Rightarrow> ((bytes \<times> op) list \<Rightarrow> (bytes \<times> op) list) \<Rightarrow> (bytes \<Rightarrow> time \<Rightarrow> time)
    \<Rightarrow> spec \<Rightarrow> (time \<times> (bytes \<Rightarrow> bytes), spec) filt list" where
  "spec_chain create ord unmarshal s =
     watch_chain create ord (\<lambda>env. spec_update unmarshal (fst env)) (\<lambda>env. snd env) s"

section \<open>Fields\<close>

lemma get_set_same [simp]: "get_field f (set_field f v s) = v"
  by (cases f) simp_all

lemma set_set_same [simp]: "set_field f v (set_field f u s) = set_field f v s"
  by (cases f) simp_all

lemma set_get_same [simp]: "set_field f (get_field f s) s = s"
  by (cases f) simp_all

lemma get_set_other: "f \<noteq> g \<Longrightarrow> get_field f (set_field g v s) = get_field f s"
  by (cases f; cases g) simp_all

lemma set_set_other: "f \<noteq> g \<Longrightarrow> set_field f v (set_field g u s) = set_field g u (set_field f v s)"
  by (cases f; cases g) simp_all

lemma spec_names_inj: "map_of spec_names n = Some f \<Longrightarrow> map_of spec_names n' = Some f \<Longrightarrow> n = n'"
proof -
  have d: "distinct (map snd spec_names)" by (simp add: spec_names_def)
  assume "map_of spec_names n = Some f" "map_of spec_names n' = Some f"
  then have "(n, f) \<in> set spec_names" "(n', f) \<in> set spec_names" by (auto dest: map_of_SomeD)
  with d show "n = n'" by (metis distinct_map inj_onD prod.inject snd_conv)
qed

interpretation spec_target: watch_target "spec_update unmarshal now" "\<lambda>n. n \<in> fst ` set spec_names"
proof
  fix n n' c c' and s b :: spec
  show "spec_update unmarshal now b n c (spec_update unmarshal now b n' c' s)
      = spec_update unmarshal now b n' c' (spec_update unmarshal now b n c s)" if "n \<noteq> n'"
  proof (cases "map_of spec_names n = None \<or> map_of spec_names n' = None")
    case True
    then show ?thesis
      by (cases "map_of spec_names n"; cases "map_of spec_names n'") (simp_all add: spec_update_def)
  next
    case False
    then obtain f g where fg: "map_of spec_names n = Some f" "map_of spec_names n' = Some g" by auto
    with that spec_names_inj have "f \<noteq> g" "g \<noteq> f" by blast+
    with fg show ?thesis by (simp add: spec_update_def get_set_other set_set_other [of f g])
  qed
  show "n \<notin> fst ` set spec_names \<Longrightarrow> spec_update unmarshal now b n c s = s"
    by (simp add: spec_update_def map_of_eq_None_iff [THEN iffD2])
  show "spec_update unmarshal now b n [] (spec_update unmarshal now b n c s) = spec_update unmarshal now b n [] s"
    by (simp add: spec_update_def spec_value_def split: option.split)
  show "spec_update unmarshal now b n [] b = b"
    by (simp add: spec_update_def spec_value_def split: option.split)
qed

section \<open>The order of reasons\<close>

text \<open>
  Abstractly a spec makes demands of different strength, and the reason is the strongest demand
  in force: forced ones first, and among equals the one that keeps the server down longest.
\<close>

fun strength :: "bool \<times> goerror option \<Rightarrow> nat" where
  "strength (True, Some ErrLobbyDowned) = 6"
| "strength (True, Some ErrLobbyStopped) = 5"
| "strength (True, Some ErrLobbyRestarted) = 4"
| "strength (False, Some ErrLobbyDowned) = 3"
| "strength (False, Some ErrLobbyStopped) = 2"
| "strength (False, Some ErrLobbyRestarted) = 1"
| "strength _ = 0"

definition demands :: "spec \<Rightarrow> time \<Rightarrow> duration \<Rightarrow> duration \<Rightarrow> (nat \<times> bool) list" where
  "demands s t idle grace =
     [(6, t < ForceDown s \<or> t < FlagForceDown s),
      (5, t < ForceStop s \<or> t < FlagForceStop s),
      (4, t < ForceRestart s \<or> t < FlagForceRestart s),
      (3, t < Down s \<or> t < FlagDown s \<or> PeerIdle s \<noteq> 0),
      (2, grace \<le> idle \<and> (t < Stop s \<or> t < FlagStop s \<or> PeerUp s \<noteq> 0)),
      (1, t < Restart s \<or> t < FlagRestart s)]"

lemmas after_defs = DownAfter_def ForceDownAfter_def StopAfter_def ForceStopAfter_def
  RestartAfter_def ForceRestartAfter_def After_def IsZero_def

lemma strength_demands:
  "strength (ReasonAfter (Some s) t idle grace) = foldr (\<lambda>(k, b) m. if b then max k m else m) (demands s t idle grace) 0"
  by (simp add: ReasonAfter_def after_defs demands_def not_le)

lemma reason_strength_zero: "snd (ReasonAfter s t idle grace) = None \<longleftrightarrow> strength (ReasonAfter s t idle grace) = 0"
  by (simp add: ReasonAfter_def)

lemma reason_forced: "fst (ReasonAfter s t idle grace) \<longleftrightarrow> 4 \<le> strength (ReasonAfter s t idle grace)"
  by (simp add: ReasonAfter_def)

lemma ForceDownAfter_reason: "ForceDownAfter s t \<longleftrightarrow> ReasonAfter s t idle grace = (True, Some ErrLobbyDowned)"
  by (simp add: ReasonAfter_def)

text \<open>One spec asks for at least as much as another: every field is as late and as nonzero.\<close>

definition spec_le :: "spec \<Rightarrow> spec \<Rightarrow> bool" where
  "spec_le s s' \<longleftrightarrow>
     list_all (\<lambda>f. get_field f s \<le> get_field f s' \<and> (get_field f s \<noteq> 0 \<longrightarrow> get_field f s' \<noteq> 0)) (map snd spec_names)"

lemma spec_names_all: "f \<in> set (map snd spec_names)"
  by (cases f) (simp_all add: spec_names_def)

lemma spec_le_field:
  "spec_le s s' \<Longrightarrow> get_field f s \<le> get_field f s'"
  "spec_le s s' \<Longrightarrow> get_field f s \<noteq> 0 \<Longrightarrow> get_field f s' \<noteq> 0"
  using spec_names_all [of f] by (auto simp: spec_le_def list_all_iff)

lemma demand_step:
  "b \<longrightarrow> b' \<Longrightarrow> list_all2 (\<lambda>(k, b) (k', b'). k = k' \<and> (b \<longrightarrow> b')) xs ys \<Longrightarrow>
    list_all2 (\<lambda>(k, b) (k', b'). k = k' \<and> (b \<longrightarrow> b')) ((k, b) # xs) ((k, b') # ys)"
  by simp

lemma demand_mono: "list_all2 (\<lambda>(k, b) (k', b'). k = k' \<and> (b \<longrightarrow> b')) xs ys \<Longrightarrow> (m :: nat) \<le> m' \<Longrightarrow>
    foldr (\<lambda>(k, b) m. if b then max k m else m) xs m \<le> foldr (\<lambda>(k, b) m. if b then max k m else m) ys m'"
  by (induction rule: list_all2_induct) (auto simp: max_def)

section \<open>Properties\<close>

text \<open>C20. The reason is the strongest demand the spec makes: forced before unforced, and down
  before stop before restart within each; the force hint tells the two groups apart, and there is
  no reason exactly when no demand is in force.\<close>

theorem reason_is_strongest_demand:
  "strength (ReasonAfter (Some s) t idle grace)
     = Max (insert 0 {k. (k, True) \<in> set (demands s t idle grace)})
   \<and> (fst (ReasonAfter (Some s) t idle grace) \<longleftrightarrow> (\<exists>k\<ge>4. (k, True) \<in> set (demands s t idle grace)))
   \<and> (snd (ReasonAfter (Some s) t idle grace) = None \<longleftrightarrow> (\<forall>k. (k, True) \<notin> set (demands s t idle grace)))"
proof -
  let ?D = "{k. (k, True) \<in> set (demands s t idle grace)}"
  have "finite ?D" by (rule finite_subset [of _ "fst ` set (demands s t idle grace)"]) force+
  moreover have "foldr (\<lambda>(k, b) m. if b then max k m else m) xs 0
      = Max (insert 0 {k. (k, True) \<in> set xs})" for xs :: "(nat \<times> bool) list"
  proof (induction xs)
    case Nil
    then show ?case by simp
  next
    case (Cons x xs)
    obtain k b where x: "x = (k, b)" by (cases x)
    have fin: "finite {k. (k, True) \<in> set xs}"
      by (rule finite_subset [of _ "fst ` set xs"]) force+
    show ?case
    proof (cases b)
      case True
      then have "{j. (j, True) \<in> set (x # xs)} = insert k {j. (j, True) \<in> set xs}" using x by auto
      with Cons.IH True x fin show ?thesis
        by (simp add: insert_commute [of 0 k])
    next
      case False
      with Cons.IH x show ?thesis by simp
    qed
  qed
  ultimately have eq: "strength (ReasonAfter (Some s) t idle grace) = Max (insert 0 ?D)"
    by (simp only: strength_demands)
  have "4 \<le> Max (insert 0 ?D) \<longleftrightarrow> (\<exists>k\<ge>4. k \<in> ?D)"
    using \<open>finite ?D\<close> by (subst Max_ge_iff) auto
  moreover have "Max (insert 0 ?D) = 0 \<longleftrightarrow> ?D \<subseteq> {0}"
    using \<open>finite ?D\<close> by (subst Max_eq_iff) auto
  moreover have "0 \<notin> ?D" by (simp add: demands_def)
  ultimately show ?thesis
    unfolding reason_forced reason_strength_zero eq by auto
qed

text \<open>Asking for more never weakens the answer: later or additional timestamps, an earlier
  start of the lobby, a longer idle time and a shorter grace period can only raise the strength of
  the reason.\<close>

theorem reason_monotone:
  assumes "spec_le s s'" and "t' \<le> t" and "idle \<le> idle'" and "grace' \<le> grace"
  shows "strength (ReasonAfter (Some s) t idle grace) \<le> strength (ReasonAfter (Some s') t' idle' grace')"
proof -
  note le = spec_le_field [OF assms(1)]
  have lt: "t < get_field f s \<longrightarrow> t' < get_field f s'" for f
    using le(1) [of f] assms(2) by linarith
  have d: "t < ForceDown s \<or> t < FlagForceDown s \<Longrightarrow> t' < ForceDown s' \<or> t' < FlagForceDown s'"
    "t < ForceStop s \<or> t < FlagForceStop s \<Longrightarrow> t' < ForceStop s' \<or> t' < FlagForceStop s'"
    "t < ForceRestart s \<or> t < FlagForceRestart s \<Longrightarrow> t' < ForceRestart s' \<or> t' < FlagForceRestart s'"
    "t < Down s \<or> t < FlagDown s \<or> PeerIdle s \<noteq> 0 \<Longrightarrow> t' < Down s' \<or> t' < FlagDown s' \<or> PeerIdle s' \<noteq> 0"
    "t < Stop s \<or> t < FlagStop s \<or> PeerUp s \<noteq> 0 \<Longrightarrow> t' < Stop s' \<or> t' < FlagStop s' \<or> PeerUp s' \<noteq> 0"
    "t < Restart s \<or> t < FlagRestart s \<Longrightarrow> t' < Restart s' \<or> t' < FlagRestart s'"
    using lt [of FForceDown] lt [of FFlagForceDown] apply simp apply blast
    using lt [of FForceStop] lt [of FFlagForceStop] apply simp apply blast
    using lt [of FForceRestart] lt [of FFlagForceRestart] apply simp apply blast
    using lt [of FDown] lt [of FFlagDown] le(2) [of FPeerIdle] apply simp apply blast
    using lt [of FStop] lt [of FFlagStop] le(2) [of FPeerUp] apply simp apply blast
    using lt [of FRestart] lt [of FFlagRestart] apply simp apply blast
    done
  have "list_all2 (\<lambda>(k, b) (k', b'). k = k' \<and> (b \<longrightarrow> b')) (demands s t idle grace) (demands s' t' idle' grace')"
    unfolding demands_def
    apply (intro demand_step impI)
          apply (erule d(1), erule d(2), erule d(3), erule d(4))
      apply (elim conjE, intro conjI, use assms(3,4) in linarith, erule d(5))
     apply (erule d(6))
    apply simp
    done
  then show ?thesis unfolding strength_demands by (rule demand_mono) simp
qed

definition zero_spec :: spec where
  "zero_spec = \<lparr>Up = 0, FlagUp = 0, PeerFull = 0, Down = 0, FlagDown = 0, PeerIdle = 0, ForceDown = 0,
     FlagForceDown = 0, Restart = 0, FlagRestart = 0, ForceRestart = 0, FlagForceRestart = 0,
     Stop = 0, PeerUp = 0, FlagStop = 0, ForceStop = 0, FlagForceStop = 0\<rparr>"

theorem reason_monotone_witness:
  "strength (ReasonAfter (Some (zero_spec\<lparr>Stop := 5\<rparr>)) 4 9 8) = 2
   \<and> strength (ReasonAfter (Some (zero_spec\<lparr>Stop := 5\<rparr>)) 4 9 8)
     \<le> strength (ReasonAfter (Some (zero_spec\<lparr>Stop := 6, ForceDown := 7\<rparr>)) 4 10 8)"
proof -
  have "spec_le (zero_spec\<lparr>Stop := 5\<rparr>) (zero_spec\<lparr>Stop := 6, ForceDown := 7\<rparr>)"
    by (simp add: spec_le_def spec_names_def zero_spec_def)
  from reason_monotone [OF this, of 4 4 9 10 8 8] show ?thesis
    by (simp add: zero_spec_def ReasonAfter_def after_defs)
qed

section \<open>A batch of notifications, end to end\<close>

lemma get_field_fold:
  assumes "map_of spec_names n = Some f" and "distinct ns"
  shows "get_field f (fold (\<lambda>m. spec_update u now b m (rd m)) ns s)
     = (if n \<in> set ns then spec_value u now (rd n) (get_field f s) (get_field f b) else get_field f s)"
  using assms(2)
proof (induction ns arbitrary: s)
  case Nil
  then show ?case by simp
next
  case (Cons m ns)
  let ?s = "spec_update u now b m (rd m) s"
  have "get_field f ?s = (if m = n then spec_value u now (rd n) (get_field f s) (get_field f b)
      else get_field f s)"
  proof (cases "map_of spec_names m")
    case None
    with assms(1) show ?thesis by (auto simp: spec_update_def)
  next
    case (Some g)
    show ?thesis
    proof (cases "m = n")
      case True
      with assms(1) show ?thesis by (simp add: spec_update_def)
    next
      case False
      with Some assms(1) spec_names_inj have "f \<noteq> g" by blast
      with False Some show ?thesis by (simp add: spec_update_def get_set_other)
    qed
  qed
  with Cons show ?case by auto
qed

text \<open>C28. A burst of notifications followed by a tick updates exactly the fields its files name:
  each such field gets the value its file asks for (the start value when the file is gone, the
  clock when it holds one newline), a \<open>.lock\<close> file counts for the file it guards and a \<open>last\<close>
  file for the status it archives, and every other field stays; the order Go ranges over the map
  of names does not matter.\<close>

theorem spec_batch_applied:
  assumes "\<And>al. mset (ord al) = mset al" and "now \<noteq> 0"
    and "List.map_filter (locate watches root) es = evs" and "evs \<noteq> []"
    and "map_of spec_names n = Some f"
  shows "get_field f (w_target (snd (watch_run watches root (spec_chain create ord unmarshal s)
      (map (\<lambda>e. (EventsRecv e, env e)) es @ [(TickRecv now, (clock, rd))])
      \<lparr>w_events = [], w_ticking = tk, w_target = s\<rparr>)))
    = (if n \<in> batch_names evs then spec_value unmarshal clock (rd n) (get_field f s) (get_field f s)
       else get_field f s)"
proof -
  obtain ns where ns: "distinct ns" "set ns = batch_names evs"
    using finite_distinct_list [OF finite_batch_names] by blast
  have run: "w_target (snd (watch_run watches root (spec_chain create ord unmarshal s)
      (map (\<lambda>e. (EventsRecv e, env e)) es @ [(TickRecv now, (clock, rd))])
      \<lparr>w_events = [], w_ticking = tk, w_target = s\<rparr>))
    = apply_filters (spec_chain create ord unmarshal s) (clock, rd) True (Some evs) None s"
    using assms(2-4)
    by (simp add: watch_run_append watch_run_collects watch_step_def IsZero_def wrap_def)
  have "apply_filters (spec_chain create ord unmarshal s) (clock, rd) True (Some evs) None s
    = fold (\<lambda>m. spec_update unmarshal clock s m (rd m)) ns s"
  proof -
    have "apply_filters (spec_chain create ord unmarshal s) (clock, rd) True (Some evs) None s
      = apply_filters (watch_chain create ord (\<lambda>env. spec_update unmarshal clock) snd s) (clock, rd) True (Some evs) None s"
      by (cases "SameNames ord (fst (LockNames create (fst (LastNames create (Some evs) None)) None)) None")
         (simp add: spec_chain_def watch_chain_def pure_filter_def consume_def)
    also have "\<dots> = fold (\<lambda>m. spec_update unmarshal clock s m (snd (clock, rd) m)) ns s"
      by (rule spec_target.chain_batch [OF assms(1) ns])
    finally show ?thesis by simp
  qed
  with run get_field_fold [OF assms(5) ns(1)] ns(2) show ?thesis by simp
qed

theorem spec_batch_applied_witness:
  "let w = snd (watch_run [(''/d/'', ''/d/'')] ''/d/'' (spec_chain 1 (\<lambda>al. al) (\<lambda>bs old. 3) zero_spec)
      (map (\<lambda>e. (EventsRecv e, (0, \<lambda>n. []))) [\<lparr>ev_name = ''/d/down.lock'', ev_op = 2\<rparr>]
        @ [(TickRecv 8, (9, \<lambda>n. [CHR 0x0A]))])
      \<lparr>w_events = [], w_ticking = False, w_target = zero_spec\<rparr>)
   in Down (w_target w) = 9 \<and> Stop (w_target w) = 0"
proof -
  let ?e = "\<lparr>ev_name = ''/d/down.lock'', ev_op = 2\<rparr>"
  have l: "List.map_filter (locate [(''/d/'', ''/d/'')] ''/d/'') [?e] = [\<lparr>ev_name = ''down.lock'', ev_op = 2\<rparr>]"
    by (simp add: locate_def path_split_def TrimPrefix_def map_filter_simps)
  have b: "batch_names [\<lparr>ev_name = ''down.lock'', ev_op = 2\<rparr>] = {''down''}"
    by (simp add: batch_names_def TrimSuffix_def HasSuffix_def)
  have n: "map_of spec_names ''down'' = Some FDown" "map_of spec_names ''stop'' = Some FStop"
    by (simp_all add: spec_names_def)
  note app = spec_batch_applied [where ord = "\<lambda>al. al" and now = 8 and clock = 9 and s = zero_spec
      and rd = "\<lambda>n. [CHR 0x0A]" and create = 1 and unmarshal = "\<lambda>bs old. 3" and tk = False
      and env = "\<lambda>e. (0, \<lambda>n. [])", OF _ _ l]
  from app [OF _ _ _ n(1)] app [OF _ _ _ n(2)] show ?thesis
    unfolding Let_def b by (simp add: spec_value_def zero_spec_def)
qed

end
