(* ===== verification/LobbyOptions.thy ===== *)
theory LobbyOptions
  imports WatchLoop
begin

text \<open>
  \<open>public/options/lobby.go\<close>: the options of a lobby, their validation, and their updates from
  the flag directory. \<open>option_update\<close> is the closure \<open>update\<close> of \<open>Lobby.Watch\<close>; the field its
  switch selects is an \<open>opt_field\<close>. Decoding JSON into a field, with the error ignored, takes the
  bytes and the old value to the new value: the decoders for a string, an integer and a boolean
  are the record \<open>codec\<close>, with \<open>time.ParseDuration\<close> (0 when it fails, as the code keeps that).
\<close>

record codec =
  un_string :: "bytes \<Rightarrow> bytes \<Rightarrow> bytes"
  un_int :: "bytes \<Rightarrow> int \<Rightarrow> int"
  un_bool :: "bytes \<Rightarrow> bool \<Rightarrow> bool"
  parse_duration :: "bytes \<Rightarrow> duration"

record lobby_options =
  Debug :: bool
  Listen :: bytes
  Session :: bytes
  Password :: bytes
  LogDir :: bytes
  SpecDir :: bytes
  StatDir :: bytes
  PidFile :: bytes
  Exe :: bytes
  Timeout :: duration
  AdminTimeout :: duration
  MaxFails :: int
  MinUptime :: duration

definition default_options :: lobby_options where
  "default_options = \<lparr>Debug = False, Listen = '''', Session = '''', Password = '''', LogDir = '''',
     SpecDir = '''', StatDir = '''', PidFile = '''', Exe = '''', Timeout = 0, AdminTimeout = 0,
     MaxFails = 0, MinUptime = 0\<rparr>"

abbreviation (input) "ExeMinLen \<equiv> 1 :: nat"
abbreviation (input) "SessionMinLen \<equiv> 1 :: nat"
abbreviation (input) "SessionMaxLen \<equiv> 40 :: nat"
abbreviation (input) "MaxFailsMin \<equiv> 0 :: int"

definition Validate :: "lobby_options \<Rightarrow> goerror option" where
  "Validate o1 =
     (if length (Exe o1) < ExeMinLen then Some ErrExeMinLen
      else if length (Session o1) < SessionMinLen then Some ErrSessionMinLen
      else if length (Session o1) > SessionMaxLen then Some ErrSessionMaxLen
      else if MaxFails o1 < MaxFailsMin then Some ErrMaxFailsMin
      else None)"

section \<open>Updates from the flag directory\<close>

text \<open>The switch on the value, by the kind of the field: a string, a duration, or a field that
  is decoded as JSON with or without a newline.\<close>

definition string_value :: "codec \<Rightarrow> bool \<Rightarrow> bytes \<Rightarrow> bytes \<Rightarrow> bytes \<Rightarrow> bytes" where
  "string_value cd line value base old =
     (if length value = 0 then base else if line then value else un_string cd value old)"

definition duration_value :: "codec \<Rightarrow> bool \<Rightarrow> bytes \<Rightarrow> duration \<Rightarrow> duration \<Rightarrow> duration" where
  "duration_value cd line value base old =
     (if length value = 0 then base else if line then parse_duration cd value else un_int cd value old)"

definition int_value :: "codec \<Rightarrow> bytes \<Rightarrow> int \<Rightarrow> int \<Rightarrow> int" where
  "int_value cd value base old = (if length value = 0 then base else un_int cd value old)"

definition bool_value :: "codec \<Rightarrow> bytes \<Rightarrow> bool \<Rightarrow> bool \<Rightarrow> bool" where
  "bool_value cd value base old = (if length value = 0 then base else un_bool cd value old)"

datatype opt_field =
    OSession | OPassword | OSpecDir | OStatDir | OLogDir | OMaxFails | OMinUptime | OAdminTimeout
  | OTimeout | OListen | OExe | OPidFile | ODebug

definition opt_keys :: "(bytes \<times> opt_field) list" where
  "opt_keys =
     [(''session'', OSession), (''password'', OPassword), (''specdir'', OSpecDir),
      (''statdir'', OStatDir), (''logdir'', OLogDir), (''maxfails'', OMaxFails),
      (''minuptime'', OMinUptime), (''admintimeout'', OAdminTimeout), (''timeout'', OTimeout),
      (''listen'', OListen), (''exe'', OExe), (''pidfile'', OPidFile), (''debug'', ODebug)]"

fun set_option :: "codec \<Rightarrow> bool \<Rightarrow> bytes \<Rightarrow> lobby_options \<Rightarrow> opt_field \<Rightarrow> lobby_options \<Rightarrow> lobby_options" where
  "set_option cd line v i OSession o1 = o1\<lparr>Session := string_value cd line v (Session i) (Session o1)\<rparr>"
| "set_option cd line v i OPassword o1 = o1\<lparr>Password := string_value cd line v (Password i) (Password o1)\<rparr>"
| "set_option cd line v i OSpecDir o1 = o1\<lparr>SpecDir := string_value cd line v (SpecDir i) (SpecDir o1)\<rparr>"
| "set_option cd line v i OStatDir o1 = o1\<lparr>StatDir := string_value cd line v (StatDir i) (StatDir o1)\<rparr>"
| "set_option cd line v i OLogDir o1 = o1\<lparr>LogDir := string_value cd line v (LogDir i) (LogDir o1)\<rparr>"
| "set_option cd line v i OMaxFails o1 = o1\<lparr>MaxFails := int_value cd v (MaxFails i) (MaxFails o1)\<rparr>"
| "set_option cd line v i OMinUptime o1 =
     o1\<lparr>MinUptime := duration_value cd line v (MinUptime i) (MinUptime o1)\<rparr>"
| "set_option cd line v i OAdminTimeout o1 =
     o1\<lparr>AdminTimeout := duration_value cd line v (AdminTimeout i) (AdminTimeout o1)\<rparr>"
| "set_option cd line v i OTimeout o1 =
     o1\<lparr>Timeout := duration_value cd line v (Timeout i) (Timeout o1)\<rparr>"
| "set_option cd line v i OListen o1 = o1\<lparr>Listen := string_value cd line v (Listen i) (Listen o1)\<rparr>"
| "set_option cd line v i OExe o1 = o1\<lparr>Exe := string_value cd line v (Exe i) (Exe o1)\<rparr>"
| "set_option cd line v i OPidFile o1 = o1\<lparr>PidFile := string_value cd line v (PidFile i) (PidFile o1)\<rparr>"
| "set_option cd line v i ODebug o1 = o1\<lparr>Debug := bool_value cd v (Debug i) (Debug o1)\<rparr>"

definition option_update :: "codec \<Rightarrow> lobby_options \<Rightarrow> bytes \<Rightarrow> bytes \<Rightarrow> lobby_options \<Rightarrow> lobby_options" where
  "option_update cd i key value o1 =
     (let line = (length value \<noteq> 0 \<and> last value = CHR 0x0A);
          value = (if line then butlast value else value)
      in case map_of opt_keys key of None \<Rightarrow> o1 | Some f \<Rightarrow> set_option cd line value i f o1)"

definition option_chain :: "op \<Rightarrow> ((bytes \<times> op) list \<Rightarrow> (bytes \<times> op) list) \<Rightarrow> codec
    \<Rightarrow> lobby_options \<Rightarrow> (bytes \<Rightarrow> bytes, lobby_options) filt list" where
  "option_chain create ord cd o1 = watch_chain create ord (\<lambda>rd. option_update cd) (\<lambda>rd. rd) o1"

lemmas option_values = string_value_def duration_value_def int_value_def bool_value_def

lemma set_option_commute:
  "f \<noteq> g \<Longrightarrow> set_option cd l v i f (set_option cd l' v' i g o1) = set_option cd l' v' i g (set_option cd l v i f o1)"
  by (cases f; cases g) simp_all

lemma set_option_restore: "set_option cd l [] i f (set_option cd l' v i f o1) = set_option cd l [] i f o1"
  by (cases f) (simp_all add: option_values)

lemma set_option_base: "set_option cd l [] i f i = i"
  by (cases f) (simp_all add: option_values)

lemma opt_keys_inj: "map_of opt_keys n = Some f \<Longrightarrow> map_of opt_keys n' = Some f \<Longrightarrow> n = n'"
proof -
  have d: "distinct (map snd opt_keys)" by (simp add: opt_keys_def)
  assume "map_of opt_keys n = Some f" "map_of opt_keys n' = Some f"
  then have "(n, f) \<in> set opt_keys" "(n', f) \<in> set opt_keys" by (auto dest: map_of_SomeD)
  with d show "n = n'" by (metis distinct_map inj_onD prod.inject snd_conv)
qed

interpretation option_target: watch_target "option_update cd" "\<lambda>n. n \<in> fst ` set opt_keys"
proof
  fix n n' c c' and s b :: lobby_options
  show "option_update cd b n c (option_update cd b n' c' s)
      = option_update cd b n' c' (option_update cd b n c s)" if "n \<noteq> n'"
  proof (cases "map_of opt_keys n = None \<or> map_of opt_keys n' = None")
    case True
    then show ?thesis
      by (cases "map_of opt_keys n"; cases "map_of opt_keys n'") (simp_all add: option_update_def)
  next
    case False
    then obtain f g where fg: "map_of opt_keys n = Some f" "map_of opt_keys n' = Some g" by auto
    with that opt_keys_inj have "f \<noteq> g" by blast
    with fg show ?thesis
      by (simp only: option_update_def Let_def option.case) (rule set_option_commute)
  qed
  show "n \<notin> fst ` set opt_keys \<Longrightarrow> option_update cd b n c s = s"
    by (simp add: option_update_def map_of_eq_None_iff [THEN iffD2])
  show "option_update cd b n [] (option_update cd b n c s) = option_update cd b n [] s"
    by (simp add: option_update_def set_option_restore Let_def split: option.split)
  show "option_update cd b n [] b = b"
    by (simp add: option_update_def set_option_base split: option.split)
qed

section \<open>Properties\<close>

text \<open>Valid options are exactly those with an executable, a session of 1 to 40 bytes and a
  failure limit that is not negative, and the first of these rules that is broken is the one
  reported.\<close>

theorem validate_reports_first:
  "Validate o1 = find (\<lambda>e. e \<in> (if Exe o1 = [] then {ErrExeMinLen} else {})
       \<union> (if Session o1 = [] then {ErrSessionMinLen} else {})
       \<union> (if 40 < length (Session o1) then {ErrSessionMaxLen} else {})
       \<union> (if MaxFails o1 < 0 then {ErrMaxFailsMin} else {}))
     [ErrExeMinLen, ErrSessionMinLen, ErrSessionMaxLen, ErrMaxFailsMin]"
  by (auto simp: Validate_def)

text \<open>C29. The options after a batch of flag files do not depend on the order Go ranges over the
  map of names, and once every file of the batch is gone the next batch gives back the options
  the process was started with.\<close>

theorem option_batch_order_free_and_restored:
  assumes "\<And>al. mset (ord al) = mset al" and "\<And>al. mset (ord' al) = mset al"
  shows "apply_filters (option_chain create ord cd o1) rd True (Some es) None o1
       = apply_filters (option_chain create ord' cd o1) rd True (Some es) None o1
     \<and> apply_filters (option_chain create ord' cd o1) (\<lambda>n. []) True (Some es) None
         (apply_filters (option_chain create ord cd o1) rd True (Some es) None o1) = o1"
proof -
  obtain ns where ns: "distinct ns" "set ns = batch_names es"
    using finite_distinct_list [OF finite_batch_names] by blast
  have batch: "apply_filters (option_chain create od cd o1) rd' True (Some es) None s
      = fold (\<lambda>n. option_update cd o1 n (rd' n)) ns s" if "\<And>al. mset (od al) = mset al" for od rd' s
    unfolding option_chain_def by (rule option_target.chain_batch [OF that ns])
  show ?thesis
    unfolding batch [of ord, OF assms(1)] batch [of ord', OF assms(2)]
    using option_target.fold_upd_restores [OF ns(1), of cd o1 rd] by simp
qed

theorem option_batch_order_free_and_restored_witness:
  "let cd = \<lparr>un_string = (\<lambda>v old. old), un_int = (\<lambda>v old. old), un_bool = (\<lambda>v old. old), parse_duration = (\<lambda>v. 0)\<rparr>;
       es = [\<lparr>ev_name = ''session'', ev_op = 1\<rparr>, \<lparr>ev_name = ''exe'', ev_op = 1\<rparr>];
       o2 = apply_filters (option_chain 1 (\<lambda>al. al) cd default_options)
              (\<lambda>n. n @ [CHR 0x0A]) True (Some es) None default_options
   in Session o2 = ''session''
    \<and> o2 = apply_filters (option_chain 1 rev cd default_options)
              (\<lambda>n. n @ [CHR 0x0A]) True (Some es) None default_options
    \<and> apply_filters (option_chain 1 rev cd default_options) (\<lambda>n. []) True (Some es) None o2 = default_options"
proof -
  let ?cd = "\<lparr>un_string = (\<lambda>v old. old), un_int = (\<lambda>v old. old), un_bool = (\<lambda>v old. old), parse_duration = (\<lambda>v. 0)\<rparr>"
  let ?es = "[\<lparr>ev_name = ''session'', ev_op = 1\<rparr>, \<lparr>ev_name = ''exe'', ev_op = 1\<rparr>] :: event list"
  let ?o2 = "apply_filters (option_chain 1 (\<lambda>al. al) ?cd default_options)
              (\<lambda>n. n @ [CHR 0x0A]) True (Some ?es) None default_options"
  have "Session ?o2 = ''session''"
    by (simp add: option_chain_def watch_chain_def pure_filter_def consume_def TrimPrefix_def TrimSuffix_def
        HasSuffix_def option_update_def opt_keys_def string_value_def default_options_def)
  moreover note option_batch_order_free_and_restored
    [of "\<lambda>al. al" rev 1 ?cd default_options "\<lambda>n. n @ [CHR 0x0A]" ?es, OF refl mset_rev]
  ultimately show ?thesis unfolding Let_def by blast
qed

end
