(* ===== verification/GoFloat.thy ===== *)
theory GoFloat
  imports Prelude
begin

text \<open>
  Go's \<open>float64\<close> with the one operation the program applies to it, subtraction. A finite value
  is a sign, a 53-bit significand and an exponent, \<open>(-1)^s * m * 2^e\<close>, in the one canonical form
  the format has: the significand is full unless the exponent is the smallest. Subtraction is
  exact subtraction followed by rounding to nearest, ties to even, with the IEEE 754 rules for
  infinities, NaN and the sign of zero.
\<close>

datatype f64 = NaN | Inf bool | Fin bool nat int

definition emin :: int where "emin \<equiv> -1074"
definition emax :: int where "emax \<equiv> 971"

definition fzero :: f64 where
  "fzero = Fin False 0 emin"

fun bitlen :: "nat \<Rightarrow> nat" where
  "bitlen n = (if n = 0 then 0 else Suc (bitlen (n div 2)))"

declare bitlen.simps [simp del]

definition canonical :: "f64 \<Rightarrow> bool" where
  "canonical x \<longleftrightarrow>
     (case x of Fin s m e \<Rightarrow> m < 2 ^ 53 \<and> emin \<le> e \<and> e \<le> emax \<and> (e \<noteq> emin \<longrightarrow> 2 ^ 52 \<le> m) | _ \<Rightarrow> True)"

text \<open>Drop \<open>k\<close> low bits, rounding to nearest and ties to even.\<close>

definition round_shift :: "nat \<Rightarrow> nat \<Rightarrow> nat" where
  "round_shift a k =
     (let q = a div 2 ^ k; r = a mod 2 ^ k in
      if 2 * r < 2 ^ k then q else if 2 ^ k < 2 * r then q + 1 else if even q then q else q + 1)"

definition fround :: "bool \<Rightarrow> nat \<Rightarrow> int \<Rightarrow> f64" where
  "fround s a e =
     (if a = 0 then Fin s 0 emin
      else
        let sh = max (int (bitlen a) - 53) (emin - e);
            m = (if sh \<le> 0 then a * 2 ^ nat (- sh) else round_shift a (nat sh));
            e = e + sh;
            (m, e) = (if m = 2 ^ 53 then (2 ^ 52, e + 1) else (m, e))
        in if emax < e then Inf s else Fin s m e)"

definition signed :: "bool \<Rightarrow> nat \<Rightarrow> int" where
  "signed s m = (if s then - int m else int m)"

fun fsub :: "f64 \<Rightarrow> f64 \<Rightarrow> f64" where
  "fsub NaN _ = NaN"
| "fsub _ NaN = NaN"
| "fsub (Inf s) (Inf t) = (if s = t then NaN else Inf s)"
| "fsub (Inf s) (Fin _ _ _) = Inf s"
| "fsub (Fin _ _ _) (Inf t) = Inf (\<not> t)"
| "fsub (Fin s m e) (Fin t n f) =
     (let g = min e f;
          d = signed s m * 2 ^ nat (e - g) - signed t n * 2 ^ nat (f - g)
      in if d = 0 then Fin (s \<and> \<not> t) 0 emin else fround (d < 0) (nat \<bar>d\<bar>) g)"

section \<open>Subtracting zero changes nothing\<close>

lemma bitlen_double: "0 < n \<Longrightarrow> bitlen (n * 2 ^ k) = bitlen n + k"
proof (induction k)
  case 0
  then show ?case by simp
next
  case (Suc k)
  have "bitlen (n * 2 ^ Suc k) = Suc (bitlen (n * 2 ^ Suc k div 2))"
    using Suc.prems by (subst bitlen.simps) simp
  also have "n * 2 ^ Suc k div 2 = n * 2 ^ k" by simp
  finally show ?case using Suc by simp
qed

lemma bitlen_bounds: "0 < n \<Longrightarrow> n < 2 ^ bitlen n \<and> 2 ^ bitlen n \<le> 2 * n"
proof (induction n rule: bitlen.induct)
  case (1 n)
  show ?case
  proof (cases "n div 2 = 0")
    case True
    with 1 have "n = 1" by auto
    then show ?thesis by (simp add: bitlen.simps)
  next
    case False
    with 1 have "n div 2 < 2 ^ bitlen (n div 2)" "2 ^ bitlen (n div 2) \<le> 2 * (n div 2)" by auto
    moreover have "bitlen n = Suc (bitlen (n div 2))" using "1.prems" by (subst bitlen.simps) simp
    ultimately show ?thesis by (simp del: power_Suc add: power_Suc) linarith
  qed
qed

lemma bitlen_le: "n < 2 ^ k \<Longrightarrow> bitlen n \<le> k"
proof (cases "n = 0")
  case True
  then show ?thesis by (simp add: bitlen.simps)
next
  case False
  assume "n < 2 ^ k"
  with bitlen_bounds [of n] False have "(2::nat) ^ bitlen n < 2 ^ Suc k" by auto
  then have "bitlen n < Suc k" by (rule power_less_imp_less_exp [rotated]) simp
  then show ?thesis by simp
qed

lemma bitlen_eq: "2 ^ k \<le> n \<Longrightarrow> n < 2 ^ Suc k \<Longrightarrow> bitlen n = Suc k"
proof -
  assume a: "2 ^ k \<le> n" "n < 2 ^ Suc k"
  have "0 < n" using a(1) by (metis less_le_trans zero_less_numeral zero_less_power)
  with bitlen_bounds [of n] a(1) have "(2::nat) ^ k < 2 ^ bitlen n" by linarith
  then have "k < bitlen n" by (rule power_less_imp_less_exp [rotated]) simp
  with bitlen_le [OF a(2)] show ?thesis by simp
qed

lemma round_shift_exact: "round_shift (m * 2 ^ k) k = m"
  by (simp add: round_shift_def)

text \<open>Rounding a value of the format, written with a smaller exponent, gives the value.\<close>

lemma fround_canonical:
  assumes "canonical (Fin s m e)" and "0 < m" and "g \<le> e" and "emin \<le> g"
  shows "fround s (m * 2 ^ nat (e - g)) g = Fin s m e"
proof -
  let ?k = "nat (e - g)"
  let ?sh = "max (int (bitlen (m * 2 ^ ?k)) - 53) (emin - g)"
  have c: "m < 2 ^ 53" "emin \<le> e" "e \<le> emax" "e \<noteq> emin \<longrightarrow> 2 ^ 52 \<le> m"
    using assms(1) by (simp_all add: canonical_def)
  have bl: "bitlen (m * 2 ^ ?k) = bitlen m + ?k" using assms(2) by (rule bitlen_double)
  have le: "bitlen m \<le> 53" using c(1) by (rule bitlen_le)
  show ?thesis
  proof (cases "e = emin")
    case True
    then have "g = emin" and "?k = 0" using assms(3,4) by simp_all
    with le True have "?sh = 0" by (simp add: bl)
    with True \<open>?k = 0\<close> \<open>g = emin\<close> assms(2) c show ?thesis by (simp add: fround_def Let_def emin_def emax_def)
  next
    case False
    then have "bitlen m = 53" using c(1,4) bitlen_eq [of 52 m] by simp
    then have s: "?sh = e - g" using assms(3,4) by (simp add: bl)
    show ?thesis
    proof (cases "e = g")
      case True
      with s assms(2) c show ?thesis by (simp add: fround_def Let_def)
    next
      case False
      with s assms(2,3) c round_shift_exact [of m ?k] show ?thesis by (simp add: fround_def Let_def)
    qed
  qed
qed

lemma fsub_fzero: "canonical x \<Longrightarrow> fsub x fzero = x"
proof (cases x)
  case (Fin s m e)
  assume can: "canonical x"
  then have e: "emin \<le> e" using Fin by (simp add: canonical_def)
  show ?thesis
  proof (cases "m = 0")
    case True
    with can Fin have "e = emin" by (auto simp: canonical_def)
    with True Fin show ?thesis by (simp add: fzero_def signed_def)
  next
    case False
    then have "fround s (m * 2 ^ nat (e - emin)) emin = x"
      using can Fin e by (simp add: fround_canonical)
    moreover have "nat \<bar>signed s m * 2 ^ k\<bar> = m * 2 ^ k" "signed s m * 2 ^ k < 0 \<longleftrightarrow> s"
      "signed s m * 2 ^ k \<noteq> 0" for k
      using False by (simp_all add: signed_def abs_mult nat_mult_distrib nat_power_eq mult_less_0_iff)
    ultimately show ?thesis using Fin e by (simp add: fzero_def Let_def) (simp add: signed_def)
  qed
qed (simp_all add: fzero_def)

end
