(* ===== verification/MatchData.thy ===== *)
theory MatchData
  imports GoFloat GoTime
begin

text \<open>
  \<open>internal/match/match.go\<close>: a match with its kills, made relative to the start of the match
  (\<open>Normalize\<close>) and stripped of identities (\<open>Anonymize\<close>) before it is written. A slice of
  kills is a list and the methods, which update the match through a pointer, return the new one.
  Field names are those of the structs.
\<close>

record location =
  X :: f64
  Y :: f64
  Z :: f64

type_synonym team = int

abbreviation (input) "BlueTeam \<equiv> 0 :: team"
abbreviation (input) "PinkTeam \<equiv> 1 :: team"

record kill =
  ShooterID :: bytes
  ShooterName :: bytes
  ShooterTeam :: team
  ShooterIsBot :: bool
  EnemyID :: bytes
  EnemyName :: bytes
  EnemyTeam :: team
  EnemyIsBot :: bool
  ShooterLocation :: location
  ShotOrigin :: location
  ImpactLocation :: location
  ImpactLocationLocal :: location
  ImpactCollider :: bytes
  EnemyLocation :: location
  RoundNumber :: int
  RoundStartTime :: f64
  KillTime :: f64

record gmatch =
  Timestamp :: time
  MatchID :: bytes
  ArenaName :: bytes
  Team0Score :: int
  Team1Score :: int
  MatchStartTime :: f64
  GameMode :: int
  Version :: bytes
  KillData :: "kill list"

text \<open>\<open>&match.Match{Timestamp: t}\<close>: every other field has its zero value.\<close>

definition new_match :: "time \<Rightarrow> gmatch" where
  "new_match t = \<lparr>Timestamp = t, MatchID = '''', ArenaName = '''', Team0Score = 0, Team1Score = 0,
     MatchStartTime = fzero, GameMode = 0, Version = '''', KillData = []\<rparr>"

section \<open>Normalize and Anonymize\<close>

definition normalize_kill :: "f64 \<Rightarrow> kill \<Rightarrow> kill" where
  "normalize_kill start k =
     k\<lparr>RoundStartTime := fsub (RoundStartTime k) start, KillTime := fsub (KillTime k) start\<rparr>"

definition Normalize :: "gmatch \<Rightarrow> gmatch" where
  "Normalize m = m\<lparr>KillData := map (normalize_kill (MatchStartTime m)) (KillData m), MatchStartTime := fzero\<rparr>"

definition anonymize_kill :: "kill \<Rightarrow> kill" where
  "anonymize_kill k = k\<lparr>ShooterName := '''', ShooterID := '''', EnemyName := '''', EnemyID := ''''\<rparr>"

definition Anonymize :: "gmatch \<Rightarrow> gmatch" where
  "Anonymize m = m\<lparr>KillData := map anonymize_kill (KillData m), MatchID := '''', Version := ''''\<rparr>"

text \<open>A match whose times are proper doubles, which JSON decoding guarantees.\<close>

definition times_canonical :: "gmatch \<Rightarrow> bool" where
  "times_canonical m \<longleftrightarrow> list_all (\<lambda>k. canonical (RoundStartTime k) \<and> canonical (KillTime k)) (KillData m)"

text \<open>Rename everybody: the identities of kill \<open>i\<close> and of the match become those given.\<close>

definition rename_kill :: "(bytes \<times> bytes) \<times> (bytes \<times> bytes) \<Rightarrow> kill \<Rightarrow> kill" where
  "rename_kill r k = k\<lparr>ShooterID := fst (fst r), ShooterName := snd (fst r),
     EnemyID := fst (snd r), EnemyName := snd (snd r)\<rparr>"

definition rename_match :: "(nat \<Rightarrow> (bytes \<times> bytes) \<times> (bytes \<times> bytes)) \<Rightarrow> bytes \<Rightarrow> bytes \<Rightarrow> gmatch \<Rightarrow> gmatch" where
  "rename_match r i v m = m\<lparr>KillData := map (\<lambda>(j, k). rename_kill (r j) k) (enumerate 0 (KillData m)),
     MatchID := i, Version := v\<rparr>"

lemma anonymize_rename: "anonymize_kill (rename_kill r k) = anonymize_kill k"
  by (simp add: anonymize_kill_def rename_kill_def)

lemma rename_anonymize:
  "rename_kill ((ShooterID k, ShooterName k), (EnemyID k, EnemyName k)) (anonymize_kill k) = k"
  by (simp add: anonymize_kill_def rename_kill_def)

lemma Normalize_Anonymize: "Normalize (Anonymize m) = Anonymize (Normalize m)"
  by (simp add: Normalize_def Anonymize_def normalize_kill_def anonymize_kill_def)

lemma map_enumerate_snd: "map (\<lambda>(j, k). f k) (enumerate n xs) = map f xs"
  by (rule nth_equalityI) (simp_all add: nth_enumerate_eq)

section \<open>Properties\<close>

text \<open>Normalizing a second time changes nothing: times are already relative and the start is
  zero, and subtracting zero is exact in the double arithmetic of the code, signed zeros,
  infinities and NaN included.\<close>

theorem Normalize_idempotent:
  assumes "times_canonical (Normalize m)"
  shows "Normalize (Normalize m) = Normalize m"
proof -
  have "normalize_kill fzero k = k" if "k \<in> set (KillData (Normalize m))" for k
    using that assms by (auto simp: times_canonical_def list_all_iff normalize_kill_def fsub_fzero)
  then have "map (normalize_kill fzero) (KillData (Normalize m)) = KillData (Normalize m)"
    by (simp add: map_idI)
  moreover have "MatchStartTime (Normalize m) = fzero" by (simp add: Normalize_def)
  ultimately show ?thesis by (simp add: Normalize_def [of "Normalize m"])
qed

definition plain_kill :: kill where
  "plain_kill = (let p = \<lparr>X = fzero, Y = fzero, Z = fzero\<rparr> in
     \<lparr>ShooterID = ''s1'', ShooterName = ''Ann'', ShooterTeam = 0, ShooterIsBot = False,
      EnemyID = ''e1'', EnemyName = ''Bob'', EnemyTeam = 1, EnemyIsBot = False,
      ShooterLocation = p, ShotOrigin = p, ImpactLocation = p, ImpactLocationLocal = p,
      ImpactCollider = ''head'', EnemyLocation = p, RoundNumber = 1,
      RoundStartTime = fzero, KillTime = fzero\<rparr>)"

definition sample_kill :: kill where
  "sample_kill = plain_kill\<lparr>RoundStartTime := Fin False (2 ^ 52) 1, KillTime := Fin False (2 ^ 52) 2\<rparr>"

definition sample_match :: gmatch where
  "sample_match = (new_match 7)\<lparr>MatchID := ''id'', MatchStartTime := Fin False (2 ^ 52) 0, KillData := [sample_kill]\<rparr>"

lemma sample_normalized:
  "map KillTime (KillData (Normalize sample_match)) = [Fin False (3 * 2 ^ 51) 1]"
  "map RoundStartTime (KillData (Normalize sample_match)) = [Fin False (2 ^ 52) 0]"
  by (simp_all add: Normalize_def sample_match_def sample_kill_def plain_kill_def normalize_kill_def signed_def
      fround_def bitlen.simps round_shift_def Let_def emin_def emax_def new_match_def)

theorem Normalize_idempotent_witness:
  "Normalize sample_match \<noteq> sample_match \<and> Normalize (Normalize sample_match) = Normalize sample_match"
proof
  have "times_canonical (Normalize sample_match)"
    using sample_normalized by (auto simp: times_canonical_def list_all_iff canonical_def emin_def emax_def)
  then show "Normalize (Normalize sample_match) = Normalize sample_match" by (rule Normalize_idempotent)
  have "MatchStartTime (Normalize sample_match) \<noteq> MatchStartTime sample_match"
    by (simp add: Normalize_def sample_match_def new_match_def fzero_def)
  then show "Normalize sample_match \<noteq> sample_match" by metis
qed

lemma Anonymize_rename: "Anonymize (rename_match r i v m) = Anonymize m"
proof -
  have "map anonymize_kill (map (\<lambda>(j, k). rename_kill (r j) k) (enumerate 0 ks)) = map anonymize_kill ks" for ks
    by (simp add: case_prod_unfold comp_def anonymize_rename)
       (use map_enumerate_snd [of anonymize_kill 0 ks] in \<open>simp add: case_prod_unfold\<close>)
  then show ?thesis
    by (simp add: Anonymize_def rename_match_def)
qed

text \<open>C35. The anonymous match says nothing about who played: it is the same whatever the player
  ids and names, the match id and the version were; and it keeps everything else, since putting
  those back gives the original match.\<close>

theorem Anonymize_hides_identities:
  "Anonymize (rename_match r i v m) = Anonymize m
   \<and> rename_match (\<lambda>j. let k = KillData m ! j in ((ShooterID k, ShooterName k), (EnemyID k, EnemyName k)))
       (MatchID m) (Version m) (Anonymize m) = m"
proof
  show "Anonymize (rename_match r i v m) = Anonymize m" by (rule Anonymize_rename)
  have "map (\<lambda>(j, k). rename_kill (let k = ks ! j in ((ShooterID k, ShooterName k), (EnemyID k, EnemyName k))) k)
      (enumerate 0 (map anonymize_kill ks)) = ks" for ks
    by (rule nth_equalityI) (simp_all add: nth_enumerate_eq Let_def rename_anonymize)
  then show "rename_match (\<lambda>j. let k = KillData m ! j in ((ShooterID k, ShooterName k), (EnemyID k, EnemyName k)))
       (MatchID m) (Version m) (Anonymize m) = m"
    by (simp add: Anonymize_def rename_match_def)
qed

end
