(* ===== verification/GoPath.thy ===== *)
theory GoPath
  imports GoStrings
begin

text \<open>
  \<open>path/filepath\<close> on Unix, as far as the program uses it: \<open>Clean\<close> resolves a path lexically,
  \<open>PJoin\<close> is \<open>filepath.Join\<close>. The facts say where the joined paths of one directory lie:
  \<open>PJoin [dir, n]\<close> is a prefix that depends on \<open>dir\<close> alone followed by \<open>n\<close>, so different names
  are different paths.
\<close>

definition slash :: char where
  "slash = CHR 0x2F"

definition comps :: "bytes \<Rightarrow> bytes list" where
  "comps p = filter (\<lambda>c. c \<noteq> '''' \<and> c \<noteq> ''.'') (Split p slash)"

text \<open>The components kept so far, last first. A \<open>..\<close> takes the last one away, stays at the root of
  a rooted path and is kept at the start of any other.\<close>

definition resolve_step :: "bool \<Rightarrow> bytes \<Rightarrow> bytes list \<Rightarrow> bytes list" where
  "resolve_step rooted c st =
     (if c = ''..'' then
        (case st of [] \<Rightarrow> if rooted then [] else [c]
         | d # ds \<Rightarrow> if d = ''..'' then c # st else ds)
      else c # st)"

definition rooted :: "bytes \<Rightarrow> bool" where
  "rooted p \<longleftrightarrow> HasPrefix p [slash]"

definition resolve :: "bytes \<Rightarrow> bytes list" where
  "resolve p = rev (fold (resolve_step (rooted p)) (comps p) [])"

definition render :: "bool \<Rightarrow> bytes list \<Rightarrow> bytes" where
  "render r cs = (if r then slash # Join cs [slash] else if cs = [] then ''.'' else Join cs [slash])"

definition Clean :: "bytes \<Rightarrow> bytes" where
  "Clean p = render (rooted p) (resolve p)"

definition PJoin :: "bytes list \<Rightarrow> bytes" where
  "PJoin elems =
     (case dropWhile (\<lambda>e. e = '''') elems of [] \<Rightarrow> '''' | es \<Rightarrow> Clean (Join es [slash]))"

text \<open>The names of directory entries.\<close>

definition simple_name :: "bytes \<Rightarrow> bool" where
  "simple_name n \<longleftrightarrow> n \<noteq> '''' \<and> n \<noteq> ''.'' \<and> n \<noteq> ''..'' \<and> slash \<notin> set n"

definition dir_prefix :: "bytes \<Rightarrow> bytes" where
  "dir_prefix dir =
     (if rooted dir then slash # concat (map (\<lambda>c. c @ [slash]) (resolve dir))
      else concat (map (\<lambda>c. c @ [slash]) (resolve dir)))"

section \<open>Joining a name to a directory\<close>

lemma Split_single: "slash \<notin> set n \<Longrightarrow> Split n slash = [n]"
  by (induction n) auto

lemma Split_append_sep: "Split (s @ slash # t) slash = Split s slash @ Split t slash"
  by (induction s) (auto split: list.split)

lemma Split_Join: "ws \<noteq> [] \<Longrightarrow> \<forall>w \<in> set ws. slash \<notin> set w \<Longrightarrow> Split (Join ws [slash]) slash = ws"
  by (induction ws "[slash]" rule: Join.induct) (simp_all add: Split_single Split_append_sep)

lemma rooted_append: "dir \<noteq> [] \<Longrightarrow> rooted (dir @ s) = rooted dir"
  by (cases dir) (simp_all add: rooted_def)

lemma rooted_Cons [simp]: "rooted (slash # s)"
  by (simp add: rooted_def)

lemma comps_join: "simple_name n \<Longrightarrow> comps (dir @ slash # n) = comps dir @ [n]"
  by (simp add: comps_def Split_append_sep Split_single simple_name_def)

lemma resolve_join: "dir \<noteq> [] \<Longrightarrow> simple_name n \<Longrightarrow> resolve (dir @ slash # n) = resolve dir @ [n]"
  using comps_join [of n dir] rooted_append [of dir "slash # n"]
  by (simp add: resolve_def resolve_step_def simple_name_def)

lemma Join_snoc: "Join (cs @ [n]) [slash] = concat (map (\<lambda>c. c @ [slash]) cs) @ n"
  by (induction cs "[slash]" rule: Join.induct) simp_all

lemma PJoin_name: "dir \<noteq> [] \<Longrightarrow> simple_name n \<Longrightarrow> PJoin [dir, n] = dir_prefix dir @ n"
  by (simp add: PJoin_def Clean_def render_def dir_prefix_def resolve_join Join_snoc rooted_append)

lemma PJoin_inj:
  "dir \<noteq> [] \<Longrightarrow> simple_name m \<Longrightarrow> simple_name n \<Longrightarrow> PJoin [dir, m] = PJoin [dir, n] \<longleftrightarrow> m = n"
  by (simp add: PJoin_name)

section \<open>Cleaning is idempotent\<close>

lemma comps_props: "c \<in> set (comps p) \<Longrightarrow> c \<noteq> [] \<and> c \<noteq> ''.'' \<and> slash \<notin> set c"
  by (auto simp: comps_def dest: Split_no_sep)

text \<open>A stack with its \<open>..\<close> at the bottom, and none at all under a root.\<close>

definition stack_ok :: "bool \<Rightarrow> bytes list \<Rightarrow> bool" where
  "stack_ok r st \<longleftrightarrow> (\<forall>c \<in> set st. c \<noteq> [] \<and> c \<noteq> ''.'' \<and> slash \<notin> set c)
     \<and> (\<exists>k ds. st = ds @ replicate k ''..'' \<and> ''..'' \<notin> set ds \<and> (r \<longrightarrow> k = 0))"

lemma stack_ok_step:
  assumes "stack_ok r st" and c: "c \<noteq> [] \<and> c \<noteq> ''.'' \<and> slash \<notin> set c"
  shows "stack_ok r (resolve_step r c st)"
proof -
  from assms(1) obtain k ds where st: "st = ds @ replicate k ''..''" "''..'' \<notin> set ds" "r \<longrightarrow> k = 0"
    and all: "\<forall>c \<in> set st. c \<noteq> [] \<and> c \<noteq> ''.'' \<and> slash \<notin> set c"
    by (auto simp: stack_ok_def)
  show ?thesis
  proof (cases "c = ''..''")
    case False
    then have "\<exists>k' ds'. c # st = ds' @ replicate k' ''..'' \<and> ''..'' \<notin> set ds' \<and> (r \<longrightarrow> k' = 0)"
      using st by (intro exI [of _ k] exI [of _ "c # ds"]) auto
    with False all c show ?thesis by (simp add: stack_ok_def resolve_step_def)
  next
    case dd: True
    show ?thesis
    proof (cases ds)
      case Nil
      show ?thesis
      proof (cases r)
        case True
        with dd st Nil show ?thesis by (simp add: stack_ok_def resolve_step_def)
      next
        case False
        with dd st Nil have "resolve_step r c st = [] @ replicate (Suc k) ''..''"
          by (cases k) (simp_all add: resolve_step_def)
        moreover have "stack_ok r ([] @ replicate (Suc k) ''..'')"
        proof -
          have "\<forall>c \<in> set (replicate (Suc k) ''..''). c \<noteq> [] \<and> c \<noteq> ''.'' \<and> slash \<notin> set c"
            by (simp add: slash_def)
          with False show ?thesis unfolding stack_ok_def by fastforce
        qed
        ultimately show ?thesis by simp
      qed
    next
      case (Cons d ds')
      with st have "d \<noteq> ''..''" by auto
      with dd st Cons have "resolve_step r c st = ds' @ replicate k ''..''"
        by (simp add: resolve_step_def)
      moreover have "stack_ok r (ds' @ replicate k ''..'')"
      proof -
        have "\<forall>c \<in> set (ds' @ replicate k ''..''). c \<noteq> [] \<and> c \<noteq> ''.'' \<and> slash \<notin> set c"
          using all st Cons by simp
        moreover have "''..'' \<notin> set ds'" using st Cons by simp
        ultimately show ?thesis using st(3) unfolding stack_ok_def by blast
      qed
      ultimately show ?thesis by simp
    qed
  qed
qed

lemma stack_ok_fold:
  "stack_ok r st \<Longrightarrow> \<forall>c \<in> set cs. c \<noteq> [] \<and> c \<noteq> ''.'' \<and> slash \<notin> set c \<Longrightarrow> stack_ok r (fold (resolve_step r) cs st)"
  by (induction cs arbitrary: st) (simp_all add: stack_ok_step)

lemma resolve_ok: "stack_ok (rooted p) (rev (resolve p))"
proof -
  have "stack_ok (rooted p) []" by (simp add: stack_ok_def)
  then have "stack_ok (rooted p) (fold (resolve_step (rooted p)) (comps p) [])"
    by (rule stack_ok_fold) (auto dest: comps_props)
  then show ?thesis by (simp add: resolve_def)
qed

lemma fold_dots: "\<not> r \<Longrightarrow> fold (resolve_step r) (replicate k ''..'') (replicate j ''..'') = replicate (k + j) ''..''"
proof (induction k arbitrary: j)
  case 0
  then show ?case by simp
next
  case (Suc k)
  then have "resolve_step r ''..'' (replicate j ''..'') = replicate (Suc j) ''..''"
    by (cases j) (simp_all add: resolve_step_def)
  with Suc.IH [of "Suc j"] Suc.prems show ?case by simp
qed

lemma fold_plain: "''..'' \<notin> set cs \<Longrightarrow> fold (resolve_step r) cs st = rev cs @ st"
  by (induction cs arbitrary: st) (auto simp: resolve_step_def)

lemma fold_resolved: "stack_ok r st \<Longrightarrow> fold (resolve_step r) (rev st) [] = st"
proof -
  assume "stack_ok r st"
  then obtain k ds where st: "st = ds @ replicate k ''..''" "''..'' \<notin> set ds" "r \<longrightarrow> k = 0"
    by (auto simp: stack_ok_def)
  have "fold (resolve_step r) (replicate k ''..'') [] = replicate k ''..''"
    using st(3) fold_dots [of r k 0] by (cases k) auto
  with st(1,2) show ?thesis by (simp add: fold_plain)
qed

lemma stack_comps: "stack_ok r st \<Longrightarrow> comps (Join (rev st) [slash]) = rev st"
proof (cases st)
  case Nil
  then show ?thesis by (simp add: comps_def)
next
  case (Cons c cs)
  assume "stack_ok r st"
  then have all: "\<forall>c \<in> set (rev st). c \<noteq> [] \<and> c \<noteq> ''.'' \<and> slash \<notin> set c" by (auto simp: stack_ok_def)
  moreover have "rev st \<noteq> []" using Cons by simp
  ultimately have "Split (Join (rev st) [slash]) slash = rev st" by (intro Split_Join) auto
  moreover have "filter (\<lambda>c. c \<noteq> '''' \<and> c \<noteq> ''.'') (rev st) = rev st" using all by (intro filter_True) auto
  ultimately show ?thesis by (simp add: comps_def)
qed

lemma Join_head: "cs \<noteq> [] \<Longrightarrow> hd cs \<noteq> [] \<Longrightarrow> Join cs sep \<noteq> [] \<and> hd (Join cs sep) = hd (hd cs)"
  by (cases "(cs, sep)" rule: Join.cases) auto

lemma rooted_render: "stack_ok r (rev cs) \<Longrightarrow> rooted (render r cs) = r"
proof (cases r)
  case False
  assume ok: "stack_ok r (rev cs)"
  show ?thesis
  proof (cases cs)
    case Nil
    then show ?thesis using False by (simp add: render_def rooted_def slash_def)
  next
    case (Cons c cs')
    with ok have c: "c \<noteq> []" "slash \<notin> set c" by (auto simp: stack_ok_def)
    then have "hd c \<noteq> slash" by (cases c) auto
    moreover have "Join cs [slash] \<noteq> [] \<and> hd (Join cs [slash]) = hd c"
      using Join_head [of cs "[slash]"] Cons c(1) by simp
    ultimately show ?thesis using False Cons
      by (cases "Join cs [slash]") (auto simp: render_def rooted_def)
  qed
qed (simp add: render_def)

lemma comps_render: "stack_ok r (rev cs) \<Longrightarrow> comps (render r cs) = cs"
proof -
  assume ok: "stack_ok r (rev cs)"
  then have c: "comps (Join cs [slash]) = cs" using stack_comps [of r "rev cs"] by simp
  have "comps (slash # Join cs [slash]) = comps (Join cs [slash])" by (simp add: comps_def)
  moreover have "comps ''.'' = []" by (simp add: comps_def slash_def)
  ultimately show ?thesis using c by (simp add: render_def)
qed

lemma Clean_idem [simp]: "Clean (Clean p) = Clean p"
proof -
  note ok = resolve_ok [of p]
  have r: "rooted (render (rooted p) (resolve p)) = rooted p" by (rule rooted_render [OF ok])
  have c: "comps (render (rooted p) (resolve p)) = resolve p" by (rule comps_render [OF ok])
  have "fold (resolve_step (rooted p)) (resolve p) [] = rev (resolve p)"
    using fold_resolved [OF ok] by simp
  then show ?thesis by (simp add: Clean_def resolve_def [of "render _ _"] r c)
qed

lemma Clean_PJoin [simp]: "PJoin es \<noteq> [] \<Longrightarrow> Clean (PJoin es) = PJoin es"
  by (cases "dropWhile (\<lambda>e. e = []) es") (simp_all add: PJoin_def del: dropWhile_eq_Nil_conv)

lemma PJoin_nonempty [simp]: "dir \<noteq> [] \<Longrightarrow> simple_name n \<Longrightarrow> PJoin [dir, n] \<noteq> []"
  by (simp add: PJoin_name simple_name_def)

lemma PJoin_suffix:
  "dir \<noteq> [] \<Longrightarrow> simple_name n \<Longrightarrow> simple_name (n @ s) \<Longrightarrow> PJoin [dir, n] @ s = PJoin [dir, n @ s]"
  by (simp add: PJoin_name)

text \<open>Joining a name to a clean absolute path that is not the root.\<close>

lemma concat_slash: "cs \<noteq> [] \<Longrightarrow> concat (map (\<lambda>c. c @ [slash]) cs) = Join cs [slash] @ [slash]"
  by (cases cs rule: rev_cases) (simp_all add: Join_snoc)

definition clean_abs :: "bytes \<Rightarrow> bool" where
  "clean_abs p \<longleftrightarrow> Clean p = p \<and> rooted p \<and> p \<noteq> [slash]"

lemma PJoin_clean_abs: "clean_abs dir \<Longrightarrow> simple_name n \<Longrightarrow> PJoin [dir, n] = dir @ slash # n"
proof -
  assume a: "clean_abs dir" "simple_name n"
  then have d: "dir = slash # Join (resolve dir) [slash]" by (metis clean_abs_def Clean_def render_def)
  with a(1) have "resolve dir \<noteq> []" by (auto simp: clean_abs_def)
  then have "dir_prefix dir = dir @ [slash]"
    using a(1) d concat_slash by (simp add: dir_prefix_def clean_abs_def)
  moreover have "dir \<noteq> []" using d by (metis list.distinct(1))
  ultimately show ?thesis using PJoin_name a(2) by simp
qed

lemma clean_abs_PJoin: "clean_abs dir \<Longrightarrow> simple_name n \<Longrightarrow> clean_abs (dir @ slash # n)"
proof -
  assume a: "clean_abs dir" "simple_name n"
  then have j: "PJoin [dir, n] = dir @ slash # n" by (rule PJoin_clean_abs)
  then have "Clean (dir @ slash # n) = dir @ slash # n" using Clean_PJoin [of "[dir, n]"] by simp
  moreover have "dir \<noteq> []" "n \<noteq> []" using a by (auto simp: clean_abs_def rooted_def simple_name_def)
  ultimately show ?thesis using a(1) by (cases dir) (auto simp: clean_abs_def rooted_def)
qed

end
