(* ===== verification/GoDisk.thy ===== *)
theory GoDisk
  imports GoPath "HOL-Library.List_Lexorder" "HOL-Library.Char_ord"
begin

text \<open>
  The file system as the lobby uses it, through \<open>os.WriteFile\<close>, \<open>Create\<close>, \<open>Rename\<close>,
  \<open>RemoveAll\<close> and \<open>ReadDir\<close>. A disk holds regular files under their clean paths, each with its
  data and the extended attribute \<open>user.s3sync.meta\<close>. Any operation may fail: \<open>d_fate\<close> says what
  becomes of the \<open>n\<close>-th one, with \<open>None\<close> for success, \<open>Some 0\<close> for a failure that leaves the disk
  as it was, and \<open>Some (Suc k)\<close> for a failure that left the first \<open>k\<close> bytes of a write. Theorems
  hold for every \<open>d_fate\<close>, hence for every pattern of failures.
\<close>

record gfile =
  fl_data :: bytes
  fl_meta :: "bytes option"

record disk =
  d_files :: "(bytes \<times> gfile) list"
  d_fate :: "nat \<Rightarrow> nat option"
  d_ops :: nat

definition err_io :: goerror where
  "err_io = ErrOther ''input/output error''"

definition err_noent :: goerror where
  "err_noent = ErrOther ''no such file or directory''"

definition fate :: "disk \<Rightarrow> nat option" where
  "fate d = d_fate d (d_ops d)"

definition spent :: "disk \<Rightarrow> disk" where
  "spent d = d\<lparr>d_ops := Suc (d_ops d)\<rparr>"

definition file_at :: "disk \<Rightarrow> bytes \<Rightarrow> gfile option" where
  "file_at d p = map_of (d_files d) (Clean p)"

abbreviation data_at :: "disk \<Rightarrow> bytes \<Rightarrow> bytes option" where
  "data_at d p \<equiv> map_option fl_data (file_at d p)"

definition put_file :: "bytes \<Rightarrow> gfile \<Rightarrow> disk \<Rightarrow> disk" where
  "put_file p f d = d\<lparr>d_files := AList.update (Clean p) f (d_files d)\<rparr>"

definition drop_file :: "bytes \<Rightarrow> disk \<Rightarrow> disk" where
  "drop_file p d = d\<lparr>d_files := AList.delete (Clean p) (d_files d)\<rparr>"

text \<open>Writing truncates a file that exists, which keeps its extended attributes.\<close>

definition written :: "bytes \<Rightarrow> bytes \<Rightarrow> disk \<Rightarrow> gfile" where
  "written p bs d = \<lparr>fl_data = bs, fl_meta = Option.bind (file_at d p) fl_meta\<rparr>"

section \<open>Operations\<close>

definition os_WriteFile :: "bytes \<Rightarrow> bytes \<Rightarrow> disk \<Rightarrow> goerror option \<times> disk" where
  "os_WriteFile p bs d =
     (if p = '''' then (Some err_noent, spent d)
      else case fate d of
        None \<Rightarrow> (None, put_file p (written p bs d) (spent d))
      | Some 0 \<Rightarrow> (Some err_io, spent d)
      | Some (Suc k) \<Rightarrow> (Some err_io, put_file p (written p (take k bs) d) (spent d)))"

definition os_Create :: "bytes \<Rightarrow> disk \<Rightarrow> goerror option \<times> disk" where
  "os_Create p d =
     (if p = '''' then (Some err_noent, spent d)
      else if fate d = None then (None, put_file p (written p '''' d) (spent d))
      else (Some err_io, spent d))"

definition os_Rename :: "bytes \<Rightarrow> bytes \<Rightarrow> disk \<Rightarrow> goerror option \<times> disk" where
  "os_Rename p q d =
     (if q = '''' then (Some err_noent, spent d)
      else case file_at d p of
        None \<Rightarrow> (Some err_noent, spent d)
      | Some f \<Rightarrow>
          if fate d = None then (None, put_file q f (drop_file p (spent d)))
          else (Some err_io, spent d))"

definition os_RemoveAll :: "bytes \<Rightarrow> disk \<Rightarrow> goerror option \<times> disk" where
  "os_RemoveAll p d =
     (if p = '''' then (None, spent d)
      else if fate d = None then (None, drop_file p (spent d))
      else (Some err_io, spent d))"

text \<open>A write to an open file, and \<open>xattr.Set\<close> on the one attribute in use.\<close>

definition fd_Write :: "bytes \<Rightarrow> bytes \<Rightarrow> disk \<Rightarrow> goerror option \<times> disk" where
  "fd_Write p bs d =
     (case file_at d p of
        None \<Rightarrow> (Some err_io, spent d)
      | Some f \<Rightarrow>
          (case fate d of
             None \<Rightarrow> (None, put_file p (f\<lparr>fl_data := fl_data f @ bs\<rparr>) (spent d))
           | Some 0 \<Rightarrow> (Some err_io, spent d)
           | Some (Suc k) \<Rightarrow> (Some err_io, put_file p (f\<lparr>fl_data := fl_data f @ take k bs\<rparr>) (spent d))))"

definition xattr_Set :: "bytes \<Rightarrow> bytes \<Rightarrow> disk \<Rightarrow> goerror option \<times> disk" where
  "xattr_Set p v d =
     (case file_at d p of
        None \<Rightarrow> (Some err_noent, spent d)
      | Some f \<Rightarrow>
          if fate d = None then (None, put_file p (f\<lparr>fl_meta := Some v\<rparr>) (spent d))
          else (Some err_io, spent d))"

text \<open>The names of the files directly in a directory, sorted, as \<open>os.ReadDir\<close> returns them.\<close>

definition entries :: "bytes \<Rightarrow> disk \<Rightarrow> bytes list" where
  "entries dir d =
     sort (filter simple_name (map (\<lambda>p. TrimPrefix p (dir_prefix dir))
       (filter (\<lambda>p. HasPrefix p (dir_prefix dir)) (keys (d_files d)))))"

definition os_ReadDir :: "bytes \<Rightarrow> disk \<Rightarrow> bytes list \<times> goerror option \<times> disk" where
  "os_ReadDir dir d =
     (if dir = '''' then ([], Some err_noent, spent d)
      else if fate d = None then (entries dir d, None, spent d)
      else ([], Some err_io, spent d))"

definition disk_ok :: "disk \<Rightarrow> bool" where
  "disk_ok d \<longleftrightarrow> distinct (keys (d_files d))"

text \<open>No operation from here on fails.\<close>

definition healthy :: "disk \<Rightarrow> bool" where
  "healthy d \<longleftrightarrow> (\<forall>n \<ge> d_ops d. d_fate d n = None)"

section \<open>Facts\<close>

lemma spent_simps [simp]:
  "d_files (spent d) = d_files d" "d_fate (spent d) = d_fate d" "d_ops (spent d) = Suc (d_ops d)"
  "file_at (spent d) p = file_at d p" "written p bs (spent d) = written p bs d"
  "disk_ok (spent d) = disk_ok d" "entries dir (spent d) = entries dir d"
  by (simp_all add: spent_def file_at_def written_def disk_ok_def entries_def)

lemma put_file_simps [simp]:
  "file_at (put_file p f d) q = (if Clean p = Clean q then Some f else file_at d q)"
  "d_fate (put_file p f d) = d_fate d" "d_ops (put_file p f d) = d_ops d"
  "disk_ok d \<Longrightarrow> disk_ok (put_file p f d)"
  by (simp_all add: put_file_def file_at_def disk_ok_def)

lemma drop_file_simps [simp]:
  "file_at (drop_file p d) q = (if Clean p = Clean q then None else file_at d q)"
  "d_fate (drop_file p d) = d_fate d" "d_ops (drop_file p d) = d_ops d"
  "disk_ok d \<Longrightarrow> disk_ok (drop_file p d)"
  by (simp_all add: drop_file_def file_at_def disk_ok_def)

lemma fl_data_written [simp]: "fl_data (written p bs d) = bs"
  by (simp add: written_def)

lemma healthy_fate [simp]: "healthy d \<Longrightarrow> fate d = None"
  by (simp add: healthy_def fate_def)

lemma healthy_spent [simp]: "healthy d \<Longrightarrow> healthy (spent d)"
  by (simp add: healthy_def)

lemma healthy_put_drop [simp]: "healthy (put_file p f d) = healthy d" "healthy (drop_file p d) = healthy d"
  by (simp_all add: healthy_def)

lemmas os_defs = os_WriteFile_def os_Create_def os_Rename_def os_RemoveAll_def os_ReadDir_def fd_Write_def xattr_Set_def

text \<open>An operation leaves every path it does not name alone, whatever its fate.\<close>

lemma os_frame [frame]:
  "Clean q \<noteq> Clean p \<Longrightarrow> file_at (snd (os_WriteFile p bs d)) q = file_at d q"
  "Clean q \<noteq> Clean p \<Longrightarrow> file_at (snd (os_Create p d)) q = file_at d q"
  "Clean q \<noteq> Clean p \<Longrightarrow> Clean q \<noteq> Clean p' \<Longrightarrow> file_at (snd (os_Rename p p' d)) q = file_at d q"
  "Clean q \<noteq> Clean p \<Longrightarrow> file_at (snd (os_RemoveAll p d)) q = file_at d q"
  "Clean q \<noteq> Clean p \<Longrightarrow> file_at (snd (fd_Write p bs d)) q = file_at d q"
  "Clean q \<noteq> Clean p \<Longrightarrow> file_at (snd (xattr_Set p bs d)) q = file_at d q"
  by (auto simp: os_defs split: option.split nat.split)

lemma os_ok [inv_rules]:
  "disk_ok d \<Longrightarrow> disk_ok (snd (os_WriteFile p bs d))"
  "disk_ok d \<Longrightarrow> disk_ok (snd (os_Create p d))"
  "disk_ok d \<Longrightarrow> disk_ok (snd (os_Rename p p' d))"
  "disk_ok d \<Longrightarrow> disk_ok (snd (os_RemoveAll p d))"
  "disk_ok d \<Longrightarrow> disk_ok (snd (fd_Write p bs d))"
  "disk_ok d \<Longrightarrow> disk_ok (snd (xattr_Set p bs d))"
  by (auto simp: os_defs split: option.split nat.split)

lemma os_healthy [inv_rules]:
  "healthy d \<Longrightarrow> healthy (snd (os_WriteFile p bs d))"
  "healthy d \<Longrightarrow> healthy (snd (os_Create p d))"
  "healthy d \<Longrightarrow> healthy (snd (os_Rename p p' d))"
  "healthy d \<Longrightarrow> healthy (snd (os_RemoveAll p d))"
  "healthy d \<Longrightarrow> healthy (snd (fd_Write p bs d))"
  "healthy d \<Longrightarrow> healthy (snd (xattr_Set p bs d))"
  by (auto simp: os_defs split: option.split nat.split)

lemma os_RemoveAll_gone: "fst (os_RemoveAll p d) = None \<Longrightarrow> p \<noteq> [] \<Longrightarrow> file_at (snd (os_RemoveAll p d)) p = None"
  by (auto simp: os_RemoveAll_def split: if_splits)

lemma os_Rename_gone:
  "fst (os_Rename p q d) = None \<Longrightarrow> Clean p \<noteq> Clean q \<Longrightarrow> file_at (snd (os_Rename p q d)) p = None"
  by (auto simp: os_Rename_def split: if_splits option.splits)

lemma entries_iff:
  "dir \<noteq> [] \<Longrightarrow> n \<in> set (entries dir d) \<longleftrightarrow> simple_name n \<and> PJoin [dir, n] \<in> fst ` set (d_files d)"
proof
  assume "dir \<noteq> []" "n \<in> set (entries dir d)"
  then obtain p where "simple_name n" "p \<in> fst ` set (d_files d)" "HasPrefix p (dir_prefix dir)"
    "n = TrimPrefix p (dir_prefix dir)"
    by (auto simp: entries_def)
  with \<open>dir \<noteq> []\<close> show "simple_name n \<and> PJoin [dir, n] \<in> fst ` set (d_files d)"
    by (force simp: PJoin_name HasPrefix_iff)
next
  assume a: "dir \<noteq> []" "simple_name n \<and> PJoin [dir, n] \<in> fst ` set (d_files d)"
  then have "dir_prefix dir @ n \<in> fst ` set (d_files d)" using PJoin_name by metis
  then have "n \<in> (\<lambda>p. TrimPrefix p (dir_prefix dir)) ` {p \<in> fst ` set (d_files d). HasPrefix p (dir_prefix dir)}"
    by (intro image_eqI [where x = "dir_prefix dir @ n"]) simp_all
  with a(2) show "n \<in> set (entries dir d)" by (auto simp: entries_def)
qed

lemma entries_file_at:
  "dir \<noteq> [] \<Longrightarrow> n \<in> set (entries dir d) \<longleftrightarrow> simple_name n \<and> file_at d (PJoin [dir, n]) \<noteq> None"
  using entries_iff [of dir n d] by (cases "simple_name n") (auto simp: file_at_def map_of_eq_None_iff)

end
