(* ===== verification/LobbyState.thy ===== *)
theory LobbyState
  imports Players LobbySpec LobbyOptions MatchData GoDisk
begin

text \<open>
  \<open>internal/lobby/lobby.go\<close>: the state of a lobby and how it is cancelled. \<open>lobby\<close> is the Go
  struct, with what its handlers touch of the world around it: the disk, the lines written to
  the lobby's standard output and error (\<open>l_out\<close>), the signals sent (\<open>l_sent\<close>), the readings
  of the clock still to come (\<open>l_clock\<close> from \<open>l_reads\<close> on), and whether a handler panicked.
  The command \<open>l.c\<close> is its arguments and additional environment, \<open>l_args\<close> and \<open>l_env\<close>, and its
  process with the process state, \<open>l_proc\<close>. The calls of \<open>debugf\<close>
  and \<open>errorf\<close> in the handlers write diagnostics that nothing reads back, and are left out; so are
  the mutexes, whose critical sections are the handlers here. The functions themselves are in
  \<open>LobbyLog\<close>.

  \<open>lib\<close> collects the library functions whose results the handlers only pass on: JSON encoding
  and decoding, time stamps as text, gopsutil's \<open>NewProcess\<close>, and gzip: \<open>gzip_write bs\<close> is what a
  gzip writer has written out after \<open>Write(bs)\<close>, and \<open>gzip_close bs\<close> what \<open>Close\<close> adds.
\<close>

datatype proc = NoCmd | NotStarted | Running int | Exited int

datatype chan = NilChan | OpenChan | ClosedChan

datatype sigkind = Terminate | Kill

datatype statval = SBytes bytes | SInt int | SString bytes | STime time

record meta =
  ContentType :: bytes
  ContentDisposition :: bytes
  ContentLanguage :: bytes
  ContentEncoding :: bytes
  Metadata :: "(bytes \<times> bytes) list"

record lib =
  marshal_string :: "bytes \<Rightarrow> bytes"
  marshal_time :: "time \<Rightarrow> bytes option"
  marshal_match :: "gmatch \<Rightarrow> bytes option"
  marshal_meta :: "meta \<Rightarrow> bytes option"
  unmarshal_kill :: "bytes \<Rightarrow> kill option"
  unmarshal_match :: "bytes \<Rightarrow> gmatch option"
  parse_match_time :: "bytes \<Rightarrow> time option"
  format_time :: "time \<Rightarrow> bytes"
  gzip_write :: "bytes \<Rightarrow> bytes"
  gzip_close :: "bytes \<Rightarrow> bytes"
  new_process :: "int \<Rightarrow> bool"

record lobby =
  l_arena :: bytes
  l_session :: bytes
  l_changed :: bool
  l_opts :: lobby_options
  l_spec :: spec
  l_proc :: proc
  l_m :: gmatch
  l_matches :: "gmatch list"
  l_matches_chan :: chan
  l_players :: players
  l_t1 :: time
  l_t2 :: time
  l_done :: chan
  l_reason :: "goerror option"
  l_disk :: disk
  l_out :: "(nat \<times> bytes) list"
  l_sent :: "(int \<times> sigkind) list"
  l_clock :: "nat \<Rightarrow> time"
  l_reads :: nat
  l_panic :: bool
  l_args :: "bytes list"
  l_env :: "bytes list"

text \<open>The literal \<open>Lobby{opts: opts}\<close> of \<open>Run\<close>, in a world with a disk and a clock.\<close>

definition fresh_lobby :: "lobby_options \<Rightarrow> disk \<Rightarrow> (nat \<Rightarrow> time) \<Rightarrow> lobby" where
  "fresh_lobby opts d clock =
     \<lparr>l_arena = '''', l_session = '''', l_changed = False, l_opts = opts, l_spec = zero_spec,
      l_proc = NoCmd, l_m = new_match 0, l_matches = [], l_matches_chan = NilChan,
      l_players = no_players, l_t1 = 0, l_t2 = 0, l_done = NilChan, l_reason = None, l_disk = d,
      l_out = [], l_sent = [], l_clock = clock, l_reads = 0, l_panic = False,
      l_args = [], l_env = []\<rparr>"

section \<open>The clock\<close>

definition time_now :: "lobby \<Rightarrow> time \<times> lobby" where
  "time_now l = (l_clock l (l_reads l), l\<lparr>l_reads := Suc (l_reads l)\<rparr>)"

definition time_Since :: "time \<Rightarrow> lobby \<Rightarrow> duration \<times> lobby" where
  "time_Since t l = (case time_now l of (now, l') \<Rightarrow> (Sub now t, l'))"

definition Uptime :: "lobby option \<Rightarrow> duration \<times> lobby option" where
  "Uptime lo =
     (case lo of None \<Rightarrow> (0, None)
      | Some l \<Rightarrow>
          if IsZero (l_t1 l) then (0, Some l)
          else if IsZero (l_t2 l) then map_prod id Some (time_Since (l_t1 l) l)
          else (Sub (l_t2 l) (l_t1 l), Some l))"

section \<open>Cancel\<close>

definition int32 :: "int \<Rightarrow> int" where
  "int32 i = (i + 2 ^ 31) mod 2 ^ 32 - 2 ^ 31"

text \<open>\<open>close\<close> of a nil or closed channel panics.\<close>

definition close_done :: "lobby \<Rightarrow> lobby" where
  "close_done l = (if l_done l = OpenChan then l\<lparr>l_done := ClosedChan\<rparr> else l\<lparr>l_panic := True\<rparr>)"

definition stop_process :: "lib \<Rightarrow> lobby \<Rightarrow> lobby" where
  "stop_process lb l =
     (case l_proc l of
        Running pid \<Rightarrow>
          if new_process lb (int32 pid) then l\<lparr>l_sent := l_sent l @ [(int32 pid, Terminate)]\<rparr>
          else l\<lparr>l_sent := l_sent l @ [(pid, Kill)]\<rparr>
      | _ \<Rightarrow> l)"

definition Cancel :: "lib \<Rightarrow> goerror option \<Rightarrow> lobby \<Rightarrow> goerror option \<times> lobby" where
  "Cancel lb reason l =
     (case reason of
        None \<Rightarrow> (l_reason l, l)
      | Some r \<Rightarrow>
          if l_reason l \<noteq> None \<and> l_reason l \<noteq> Some ErrLobbyDone then (l_reason l, l)
          else
            let closes = (l_reason l = None \<and> l_done l \<noteq> NilChan);
                l = stop_process lb (l\<lparr>l_reason := Some r\<rparr>);
                l = (if closes then close_done l else l)
            in (if r = ErrLobbyDone then None else Some r, l))"

text \<open>The method on a pointer that may be nil.\<close>

definition Cancel_ptr :: "lib \<Rightarrow> goerror option \<Rightarrow> lobby option \<Rightarrow> goerror option \<times> lobby option" where
  "Cancel_ptr lb reason lo =
     (case lo of None \<Rightarrow> (Some ErrLobbyBad, None) | Some l \<Rightarrow> map_prod id Some (Cancel lb reason l))"

abbreviation cancel :: "lib \<Rightarrow> goerror \<Rightarrow> lobby \<Rightarrow> lobby" where
  "cancel lb r l \<equiv> snd (Cancel lb (Some r) l)"

text \<open>How far a reason can still change: not at all once it is a real one.\<close>

fun settled :: "goerror option \<Rightarrow> nat" where
  "settled None = 0"
| "settled (Some r) = (if r = ErrLobbyDone then 1 else 2)"

definition reason_step :: "goerror option \<Rightarrow> goerror option \<Rightarrow> bool" where
  "reason_step r r' \<longleftrightarrow> r = r' \<or> settled r < settled r' \<or> settled r = 1 \<and> settled r' = 1"

lemma settled_Some: "settled r = 0 \<longleftrightarrow> r = None" "settled r = 1 \<longleftrightarrow> r = Some ErrLobbyDone" "settled r \<le> 2"
  by (cases r; simp)+

lemma reason_step_refl [simp]: "reason_step r r"
  by (simp add: reason_step_def)

lemma reason_step_trans: "reason_step a b \<Longrightarrow> reason_step b c \<Longrightarrow> reason_step a c"
  by (auto simp: reason_step_def settled_Some)

text \<open>The two channels agree with the reason, and no handler has panicked.\<close>

definition cancel_ok :: "lobby \<Rightarrow> bool" where
  "cancel_ok l \<longleftrightarrow> \<not> l_panic l
     \<and> (l_done l = NilChan \<or> l_done l = (if l_reason l = None then OpenChan else ClosedChan))"

lemma stop_process_frame [simp, frame]:
  "l_arena (stop_process lb l) = l_arena l" "l_session (stop_process lb l) = l_session l"
  "l_changed (stop_process lb l) = l_changed l" "l_opts (stop_process lb l) = l_opts l"
  "l_spec (stop_process lb l) = l_spec l" "l_proc (stop_process lb l) = l_proc l"
  "l_m (stop_process lb l) = l_m l" "l_matches (stop_process lb l) = l_matches l"
  "l_matches_chan (stop_process lb l) = l_matches_chan l" "l_players (stop_process lb l) = l_players l"
  "l_t1 (stop_process lb l) = l_t1 l" "l_t2 (stop_process lb l) = l_t2 l"
  "l_done (stop_process lb l) = l_done l" "l_reason (stop_process lb l) = l_reason l"
  "l_disk (stop_process lb l) = l_disk l" "l_out (stop_process lb l) = l_out l"
  "l_clock (stop_process lb l) = l_clock l" "l_reads (stop_process lb l) = l_reads l"
  "l_panic (stop_process lb l) = l_panic l"
  by (simp_all add: stop_process_def split: proc.split)

lemma Cancel_frame [simp, frame]:
  "l_arena (snd (Cancel lb r l)) = l_arena l" "l_session (snd (Cancel lb r l)) = l_session l"
  "l_changed (snd (Cancel lb r l)) = l_changed l" "l_opts (snd (Cancel lb r l)) = l_opts l"
  "l_spec (snd (Cancel lb r l)) = l_spec l" "l_proc (snd (Cancel lb r l)) = l_proc l"
  "l_m (snd (Cancel lb r l)) = l_m l" "l_matches (snd (Cancel lb r l)) = l_matches l"
  "l_matches_chan (snd (Cancel lb r l)) = l_matches_chan l" "l_players (snd (Cancel lb r l)) = l_players l"
  "l_t1 (snd (Cancel lb r l)) = l_t1 l" "l_t2 (snd (Cancel lb r l)) = l_t2 l"
  "l_disk (snd (Cancel lb r l)) = l_disk l" "l_out (snd (Cancel lb r l)) = l_out l"
  "l_clock (snd (Cancel lb r l)) = l_clock l" "l_reads (snd (Cancel lb r l)) = l_reads l"
  by (simp_all add: Cancel_def Let_def close_done_def split: option.split)

lemma Cancel_reason:
  "l_reason (snd (Cancel lb r l)) =
     (if r = None \<or> settled (l_reason l) = 2 then l_reason l else r)"
  by (cases r; cases "l_reason l") (auto simp: Cancel_def Let_def close_done_def)

lemma Cancel_reason_step [simp]: "reason_step (l_reason l) (l_reason (snd (Cancel lb r l)))"
  by (cases r; cases "l_reason l") (auto simp: Cancel_reason reason_step_def)

lemma Cancel_settles: "l_reason (cancel lb r l) \<noteq> None"
  by (cases "l_reason l") (auto simp: Cancel_reason settled_Some)

lemma Cancel_ok [inv_rules]: "cancel_ok l \<Longrightarrow> cancel_ok (snd (Cancel lb r l))"
  by (cases r; cases "l_reason l") (auto simp: Cancel_def Let_def close_done_def cancel_ok_def)

lemma Cancel_open [simp]: "l_done (snd (Cancel lb r l)) = NilChan \<longleftrightarrow> l_done l = NilChan"
  by (auto simp: Cancel_def Let_def close_done_def split: option.split)

text \<open>What \<open>Cancel\<close> answers: nil for a shutdown that is a normal one so far, and otherwise the
  reason the lobby stops for.\<close>

lemma Cancel_returns:
  "fst (Cancel lb (Some r) l) =
     (if settled (l_reason l) = 2 then l_reason l else if r = ErrLobbyDone then None else Some r)"
  by (cases "l_reason l") (auto simp: Cancel_def Let_def)

section \<open>Properties\<close>

text \<open>Whatever is cancelled, in whatever order, the lobby stops for the first reason that is not
  the mere end of a goroutine; the done channel is closed exactly when there is a reason, never
  twice, and nothing panics.\<close>

theorem cancel_keeps_first_reason:
  assumes "l_reason l = None" and "l_done l = OpenChan" and "\<not> l_panic l"
  shows "let l' = fold (\<lambda>r l. snd (Cancel lb r l)) rs l; given = filter (\<lambda>r. r \<noteq> None) rs
     in l_reason l' = (case find (\<lambda>r. r \<noteq> Some ErrLobbyDone) given of
            Some r \<Rightarrow> r | None \<Rightarrow> if given = [] then None else Some ErrLobbyDone)
      \<and> l_done l' = (if given = [] then OpenChan else ClosedChan)
      \<and> \<not> l_panic l'"
proof -
  let ?run = "\<lambda>rs l. fold (\<lambda>r l. snd (Cancel lb r l)) rs l"
  have real: "l_reason (?run rs l) = l_reason l" if "settled (l_reason l) = 2" for rs l
    using that by (induction rs arbitrary: l) (simp_all add: Cancel_reason)
  have real': "l_reason (?run rs (cancel lb r l)) = Some r" if "settled (l_reason l) \<noteq> 2" "r \<noteq> ErrLobbyDone" for rs l r
    using that real [of "cancel lb r l" rs] by (simp add: Cancel_reason)
  have soft: "l_reason (?run rs l) = (case find (\<lambda>r. r \<noteq> Some ErrLobbyDone) (filter (\<lambda>r. r \<noteq> None) rs) of
            Some r \<Rightarrow> r | None \<Rightarrow> Some ErrLobbyDone)" if "l_reason l = Some ErrLobbyDone" for rs l
    using that
  proof (induction rs arbitrary: l)
    case (Cons r rs)
    then show ?case
      by (cases r; cases "r = Some ErrLobbyDone") (simp_all add: Cancel_reason real')
  qed simp
  have reason: "l_reason (?run rs l) = (case find (\<lambda>r. r \<noteq> Some ErrLobbyDone) (filter (\<lambda>r. r \<noteq> None) rs) of
            Some r \<Rightarrow> r | None \<Rightarrow> if filter (\<lambda>r. r \<noteq> None) rs = [] then None else Some ErrLobbyDone)"
    if "l_reason l = None" for rs l
    using that
  proof (induction rs arbitrary: l)
    case (Cons r rs)
    then show ?case
      by (cases r; cases "r = Some ErrLobbyDone") (simp_all add: Cancel_reason soft real')
  qed simp
  have ok: "cancel_ok (?run rs l)" if "cancel_ok l" for rs l
    using that by (induction rs arbitrary: l) (simp_all add: Cancel_ok)
  have open': "l_done (?run rs l) \<noteq> NilChan" if "l_done l \<noteq> NilChan" for rs l
    using that by (induction rs arbitrary: l) simp_all
  have "cancel_ok (?run rs l)" using assms by (intro ok) (simp add: cancel_ok_def)
  moreover have "l_done (?run rs l) \<noteq> NilChan" using assms(2) by (intro open') simp
  moreover have "l_reason (?run rs l) = None \<longleftrightarrow> filter (\<lambda>r. r \<noteq> None) rs = []"
    unfolding reason [OF assms(1)]
    by (auto split: option.split simp: find_Some_iff filter_eq_Cons_iff dest: nth_mem)
  ultimately show ?thesis using reason [OF assms(1), of rs] unfolding Let_def cancel_ok_def by simp
qed


text \<open>Library functions and a running lobby for the concrete runs of the development.\<close>

definition sample_lib :: lib where
  "sample_lib = \<lparr>marshal_string = (\<lambda>s. CHR 0x22 # s @ [CHR 0x22]), marshal_time = (\<lambda>t. Some (Itoa t)),
     marshal_match = (\<lambda>m. Some (MatchID m)), marshal_meta = (\<lambda>m. Some (ContentType m)),
     unmarshal_kill = (\<lambda>bs. Some (plain_kill\<lparr>ShooterID := drop 11 bs\<rparr>)),
     unmarshal_match = (\<lambda>bs. Some ((new_match 0)\<lparr>MatchID := drop 11 bs\<rparr>)),
     parse_match_time = (\<lambda>s. if s = '''' then None else Some (int (length s))),
     format_time = Itoa, gzip_write = (\<lambda>bs. bs), gzip_close = (\<lambda>bs. ''.''), new_process = (\<lambda>pid. 0 < pid)\<rparr>"

definition sample_disk :: disk where
  "sample_disk = \<lparr>d_files = [], d_fate = (\<lambda>_. None), d_ops = 0\<rparr>"

definition sample_options :: lobby_options where
  "sample_options = default_options\<lparr>Session := ''s'', StatDir := ''/stat'', LogDir := ''/log'', Exe := ''x'',
     Timeout := 5 * Minute, AdminTimeout := 5 * Minute, MaxFails := 1\<rparr>"

definition sample_lobby :: lobby where
  "sample_lobby = (fresh_lobby sample_options sample_disk (\<lambda>n. int n * Second))
     \<lparr>l_session := ''s'', l_proc := Running 42, l_m := new_match 0, l_matches_chan := OpenChan,
      l_done := OpenChan\<rparr>"

lemma sample_simps [simp]:
  "l_opts sample_lobby = sample_options" "StatDir sample_options = ''/stat''" "PidFile sample_options = ''''"
  "LogDir sample_options = ''/log''" "MaxFails sample_options = 1" "MinUptime sample_options = 0"
  "Timeout sample_options = 5 * Minute" "AdminTimeout sample_options = 5 * Minute"
  "l_disk sample_lobby = sample_disk" "l_proc sample_lobby = Running 42" "l_m sample_lobby = new_match 0"
  "l_matches sample_lobby = []" "l_matches_chan sample_lobby = OpenChan" "l_players sample_lobby = no_players"
  "l_done sample_lobby = OpenChan" "l_reason sample_lobby = None" "\<not> l_panic sample_lobby"
  "l_session sample_lobby = ''s''" "l_changed sample_lobby = False" "l_out sample_lobby = []"
  "l_spec sample_lobby = zero_spec" "l_t1 sample_lobby = 0"
  by (simp_all add: sample_lobby_def fresh_lobby_def sample_options_def default_options_def)

theorem cancel_keeps_first_reason_witness:
  "let l' = fold (\<lambda>r l. snd (Cancel sample_lib r l))
       [None, Some ErrLobbyDone, Some ErrLobbyTimeout, Some ErrLobbyBad, Some ErrLobbyDone] sample_lobby
   in l_reason l' = Some ErrLobbyTimeout \<and> l_done l' = ClosedChan \<and> \<not> l_panic l'"
  using cancel_keeps_first_reason [of sample_lobby sample_lib
      "[None, Some ErrLobbyDone, Some ErrLobbyTimeout, Some ErrLobbyBad, Some ErrLobbyDone]"]
  by (simp add: Let_def)

end
