(* ===== verification/LobbyStat.thy ===== *)
theory LobbyStat
  imports LobbyState
begin

text \<open>
  \<open>internal/lobby/stat.go\<close>: the status files. Each status is a file of \<open>StatDir\<close> that holds
  JSON; it is written beside the file and renamed over it, and when it is taken away it is
  renamed to \<open>last<name>\<close>. \<open>pid_stat\<close> is the switch that rewrites the pid files when the game
  comes up or its idle state changes, \<open>file_stat\<close> the rest of \<open>setstat\<close>. A Go \<open>interface{}\<close>
  that is nil is \<open>None\<close>.
\<close>

definition err_json :: goerror where
  "err_json = ErrOther ''json: unsupported value''"

definition stat_bytes :: "lib \<Rightarrow> statval \<Rightarrow> bytes option" where
  "stat_bytes lb v =
     (case v of SBytes bs \<Rightarrow> Some bs
      | SInt i \<Rightarrow> Some (Itoa i)
      | SString s \<Rightarrow> Some (marshal_string lb s)
      | STime t \<Rightarrow> marshal_time lb t)"

definition pid_stat :: "bytes \<Rightarrow> statval option \<Rightarrow> lobby \<Rightarrow> disk \<Rightarrow> disk" where
  "pid_stat name data l d =
     (case l_proc l of
        Running pid \<Rightarrow>
          if name = ''up'' \<or> name = ''idle'' then
            let pidfile = Split (PidFile (l_opts l)) (CHR 0x2C) in
            if name = ''up'' \<and> data \<noteq> None \<and> 1 < length pidfile \<and> pidfile ! 1 \<noteq> '''' then
              snd (os_WriteFile (pidfile ! 1) (Itoa pid) d)
            else if name = ''idle'' \<and> data = None \<and> 2 < length pidfile \<and> pidfile ! 2 \<noteq> '''' then
              snd (os_WriteFile (pidfile ! 1) (Itoa pid) d)
            else if name = ''idle'' \<and> data \<noteq> None \<and> 2 < length pidfile \<and> pidfile ! 2 \<noteq> '''' then
              snd (os_WriteFile (pidfile ! 2) (Itoa pid) d)
            else d
          else d
      | _ \<Rightarrow> d)"

definition file_stat :: "lib \<Rightarrow> bytes \<Rightarrow> bytes \<Rightarrow> statval option \<Rightarrow> disk \<Rightarrow> goerror option \<times> disk" where
  "file_stat lb dir name data d =
     (let file = PJoin [dir, name]; last = PJoin [dir, ''last'' @ name] in
      case data of
        None \<Rightarrow>
          (case os_Rename file last d of
             (None, d) \<Rightarrow> (None, d)
           | (Some _, d) \<Rightarrow> os_RemoveAll file d)
      | Some v \<Rightarrow>
          (case stat_bytes lb v of
             None \<Rightarrow> (Some err_json, d)
           | Some bs \<Rightarrow>
               (case os_WriteFile (file @ ''.lock'') bs d of
                  (Some e, d) \<Rightarrow> (Some e, d)
                | (None, d) \<Rightarrow> os_Rename (file @ ''.lock'') file d)))"

definition setstat :: "lib \<Rightarrow> bytes \<Rightarrow> statval option \<Rightarrow> lobby \<Rightarrow> goerror option \<times> lobby" where
  "setstat lb name data l =
     (if name = '''' \<or> HasPrefix name ''last'' then (None, l)
      else
        let l = l\<lparr>l_disk := pid_stat name data l (l_disk l)\<rparr> in
        if StatDir (l_opts l) = '''' then (None, l)
        else case file_stat lb (StatDir (l_opts l)) name data (l_disk l) of
          (e, d) \<Rightarrow> (e, l\<lparr>l_disk := d\<rparr>))"

definition newstat :: "lib \<Rightarrow> bytes \<Rightarrow> lobby \<Rightarrow> goerror option \<times> lobby" where
  "newstat lb name l =
     (if name = ''match'' then setstat lb name (Some (STime (Timestamp (l_m l)))) l
      else case time_now l of (now, l) \<Rightarrow> setstat lb name (Some (STime now)) l)"

definition remstat :: "lib \<Rightarrow> bytes \<Rightarrow> lobby \<Rightarrow> goerror option \<times> lobby" where
  "remstat lb name l = setstat lb name None l"

fun rem_all :: "lib \<Rightarrow> bytes list \<Rightarrow> lobby \<Rightarrow> goerror option \<times> lobby" where
  "rem_all lb [] l = (None, l)"
| "rem_all lb (n # ns) l =
     (case setstat lb n None l of (Some e, l) \<Rightarrow> (Some e, l) | (None, l) \<Rightarrow> rem_all lb ns l)"

definition remstats :: "lib \<Rightarrow> bytes list \<Rightarrow> lobby \<Rightarrow> goerror option \<times> lobby" where
  "remstats lb names l =
     (if StatDir (l_opts l) \<noteq> '''' \<and> names = [] then
        case os_ReadDir (StatDir (l_opts l)) (l_disk l) of
          (_, Some e, d) \<Rightarrow> (Some e, l\<lparr>l_disk := d\<rparr>)
        | (ns, None, d) \<Rightarrow> rem_all lb (filter (\<lambda>n. \<not> HasPrefix n ''last'') ns) (l\<lparr>l_disk := d\<rparr>)
      else rem_all lb names l)"

section \<open>What the status operations leave alone\<close>

lemma setstat_shape: "\<exists>d. snd (setstat lb name data l) = l\<lparr>l_disk := d\<rparr>"
proof -
  have "\<exists>d. l = l\<lparr>l_disk := d\<rparr>" by (rule exI [of _ "l_disk l"]) simp
  then show ?thesis by (auto simp: setstat_def Let_def split: prod.split)
qed

lemma setstat_frame [simp, frame]:
  "l_arena (snd (setstat lb n v l)) = l_arena l" "l_session (snd (setstat lb n v l)) = l_session l"
  "l_changed (snd (setstat lb n v l)) = l_changed l" "l_opts (snd (setstat lb n v l)) = l_opts l"
  "l_spec (snd (setstat lb n v l)) = l_spec l" "l_proc (snd (setstat lb n v l)) = l_proc l"
  "l_m (snd (setstat lb n v l)) = l_m l" "l_matches (snd (setstat lb n v l)) = l_matches l"
  "l_matches_chan (snd (setstat lb n v l)) = l_matches_chan l"
  "l_players (snd (setstat lb n v l)) = l_players l"
  "l_t1 (snd (setstat lb n v l)) = l_t1 l" "l_t2 (snd (setstat lb n v l)) = l_t2 l"
  "l_done (snd (setstat lb n v l)) = l_done l" "l_reason (snd (setstat lb n v l)) = l_reason l"
  "l_out (snd (setstat lb n v l)) = l_out l" "l_sent (snd (setstat lb n v l)) = l_sent l"
  "l_clock (snd (setstat lb n v l)) = l_clock l" "l_reads (snd (setstat lb n v l)) = l_reads l"
  "l_panic (snd (setstat lb n v l)) = l_panic l"
  using setstat_shape [of lb n v l] by auto

lemma remstat_frame [simp, frame]:
  "l_arena (snd (remstat lb n l)) = l_arena l" "l_session (snd (remstat lb n l)) = l_session l"
  "l_changed (snd (remstat lb n l)) = l_changed l" "l_opts (snd (remstat lb n l)) = l_opts l"
  "l_spec (snd (remstat lb n l)) = l_spec l" "l_proc (snd (remstat lb n l)) = l_proc l"
  "l_m (snd (remstat lb n l)) = l_m l" "l_matches (snd (remstat lb n l)) = l_matches l"
  "l_matches_chan (snd (remstat lb n l)) = l_matches_chan l"
  "l_players (snd (remstat lb n l)) = l_players l"
  "l_t1 (snd (remstat lb n l)) = l_t1 l" "l_t2 (snd (remstat lb n l)) = l_t2 l"
  "l_done (snd (remstat lb n l)) = l_done l" "l_reason (snd (remstat lb n l)) = l_reason l"
  "l_out (snd (remstat lb n l)) = l_out l" "l_sent (snd (remstat lb n l)) = l_sent l"
  "l_clock (snd (remstat lb n l)) = l_clock l" "l_reads (snd (remstat lb n l)) = l_reads l"
  "l_panic (snd (remstat lb n l)) = l_panic l"
  by (simp_all add: remstat_def)

lemma newstat_frame [simp, frame]:
  "l_arena (snd (newstat lb n l)) = l_arena l" "l_session (snd (newstat lb n l)) = l_session l"
  "l_changed (snd (newstat lb n l)) = l_changed l" "l_opts (snd (newstat lb n l)) = l_opts l"
  "l_spec (snd (newstat lb n l)) = l_spec l" "l_proc (snd (newstat lb n l)) = l_proc l"
  "l_m (snd (newstat lb n l)) = l_m l" "l_matches (snd (newstat lb n l)) = l_matches l"
  "l_matches_chan (snd (newstat lb n l)) = l_matches_chan l"
  "l_players (snd (newstat lb n l)) = l_players l"
  "l_t1 (snd (newstat lb n l)) = l_t1 l" "l_t2 (snd (newstat lb n l)) = l_t2 l"
  "l_done (snd (newstat lb n l)) = l_done l" "l_reason (snd (newstat lb n l)) = l_reason l"
  "l_out (snd (newstat lb n l)) = l_out l" "l_sent (snd (newstat lb n l)) = l_sent l"
  "l_clock (snd (newstat lb n l)) = l_clock l" "l_panic (snd (newstat lb n l)) = l_panic l"
  by (simp_all add: newstat_def time_now_def)

section \<open>What becomes of a status file\<close>

lemma simple_name_ext: "simple_name n \<Longrightarrow> simple_name (n @ ''.lock'')" "simple_name n \<Longrightarrow> simple_name (''last'' @ n)"
  by (auto simp: simple_name_def slash_def)

text \<open>The three paths of one status: the file, its lock and its last value.\<close>

lemma stat_paths:
  assumes "dir \<noteq> []" and "simple_name n"
  shows "PJoin [dir, n] @ ''.lock'' = PJoin [dir, n @ ''.lock'']"
    and "Clean (PJoin [dir, n]) = PJoin [dir, n]"
    and "Clean (PJoin [dir, n @ ''.lock'']) = PJoin [dir, n @ ''.lock'']"
    and "Clean (PJoin [dir, ''last'' @ n]) = PJoin [dir, ''last'' @ n]"
    and "PJoin [dir, n @ ''.lock''] \<noteq> PJoin [dir, n]" and "PJoin [dir, ''last'' @ n] \<noteq> PJoin [dir, n]"
  using assms simple_name_ext [of n] by (simp_all add: PJoin_suffix PJoin_inj)

lemma file_stat_set:
  assumes "dir \<noteq> []" and "simple_name n" and "stat_bytes lb v = Some bs"
  shows "(case file_stat lb dir n (Some v) d of
            (None, d') \<Rightarrow> data_at d' (PJoin [dir, n]) = Some bs
          | (Some e, d') \<Rightarrow> file_at d' (PJoin [dir, n]) = file_at d (PJoin [dir, n]))"
  using stat_paths [OF assms(1,2)] assms PJoin_nonempty [OF assms(1,2)]
    PJoin_nonempty [OF assms(1) simple_name_ext(1) [OF assms(2)]]
  by (auto simp: file_stat_def Let_def os_WriteFile_def os_Rename_def split: option.split nat.split)

lemma file_stat_rem:
  assumes "dir \<noteq> []" and "simple_name n"
  shows "(case file_stat lb dir n None d of
            (None, d') \<Rightarrow> file_at d' (PJoin [dir, n]) = None
              \<and> (file_at d' (PJoin [dir, ''last'' @ n]) = file_at d (PJoin [dir, ''last'' @ n])
                 \<or> file_at d' (PJoin [dir, ''last'' @ n]) = file_at d (PJoin [dir, n]) \<and> file_at d (PJoin [dir, n]) \<noteq> None)
          | (Some e, d') \<Rightarrow> file_at d' = file_at d)"
  using stat_paths [OF assms] PJoin_nonempty [OF assms] PJoin_nonempty [OF assms(1) simple_name_ext(2) [OF assms(2)]]
  by (auto simp: file_stat_def Let_def os_RemoveAll_def os_Rename_def split: option.split nat.split)

lemma file_stat_rem_healthy:
  assumes "dir \<noteq> []" and "simple_name n" and "healthy d"
  shows "fst (file_stat lb dir n None d) = None"
    and "file_at d (PJoin [dir, n]) = Some f \<Longrightarrow> file_at (snd (file_stat lb dir n None d)) (PJoin [dir, ''last'' @ n]) = Some f"
  using stat_paths [OF assms(1,2)] assms PJoin_nonempty [OF assms(1) simple_name_ext(2) [OF assms(2)]]
  by (auto simp: file_stat_def Let_def os_RemoveAll_def os_Rename_def split: option.split)

lemma file_stat_set_healthy:
  assumes "dir \<noteq> []" and "simple_name n" and "healthy d" and "stat_bytes lb v = Some bs"
  shows "fst (file_stat lb dir n (Some v) d) = None"
  using stat_paths [OF assms(1,2)] assms PJoin_nonempty [OF assms(1) simple_name_ext(1) [OF assms(2)]]
    PJoin_nonempty [OF assms(1,2)]
  by (auto simp: file_stat_def Let_def os_WriteFile_def os_Rename_def split: option.split)

lemma file_stat_frame:
  assumes "dir \<noteq> []" and "simple_name n"
    and "Clean q \<notin> {PJoin [dir, n], PJoin [dir, n @ ''.lock''], PJoin [dir, ''last'' @ n]}"
  shows "file_at (snd (file_stat lb dir n v d)) q = file_at d q"
proof -
  let ?f = "PJoin [dir, n]" and ?k = "PJoin [dir, n] @ ''.lock''" and ?t = "PJoin [dir, ''last'' @ n]"
  have q: "Clean q \<noteq> Clean ?f" "Clean q \<noteq> Clean ?k" "Clean q \<noteq> Clean ?t"
    using stat_paths [OF assms(1,2)] assms(3) by simp_all
  show ?thesis
  proof (cases v)
    case None
    have "file_at (snd (os_RemoveAll ?f (snd (os_Rename ?f ?t d)))) q = file_at d q"
      using os_frame(3) [OF q(1,3)] os_frame(4) [OF q(1)] by simp
    with os_frame(3) [OF q(1,3)] None show ?thesis
      by (simp add: file_stat_def Let_def case_prod_unfold split: option.split)
  next
    case (Some w)
    have "file_at (snd (os_Rename ?k ?f (snd (os_WriteFile ?k bs d)))) q = file_at d q" for bs
      using os_frame(1) [OF q(2)] os_frame(3) [OF q(2,1)] by simp
    with os_frame(1) [OF q(2)] Some show ?thesis
      by (simp add: file_stat_def Let_def case_prod_unfold split: option.split)
  qed
qed

text \<open>A pid file that is also the file \<open>p\<close> would be overwritten with the pid.\<close>

definition pid_apart :: "lobby \<Rightarrow> bytes \<Rightarrow> bool" where
  "pid_apart l p \<longleftrightarrow> (\<forall>f \<in> set (tl (Split (PidFile (l_opts l)) (CHR 0x2C))). Clean f \<noteq> Clean p)"

lemma nth_tl_set: "0 < i \<Longrightarrow> i < length xs \<Longrightarrow> xs ! i \<in> set (tl xs)"
  by (cases xs; cases i) auto

lemma pid_write_frame:
  assumes "pid_apart l q" and "0 < i" and "i < length (Split (PidFile (l_opts l)) (CHR 0x2C))"
  shows "file_at (snd (os_WriteFile (Split (PidFile (l_opts l)) (CHR 0x2C) ! i) bs d)) q = file_at d q"
proof (rule os_frame(1))
  show "Clean q \<noteq> Clean (Split (PidFile (l_opts l)) (CHR 0x2C) ! i)"
    using assms nth_tl_set [OF assms(2,3)] by (metis pid_apart_def)
qed

lemma pid_stat_frame: "pid_apart l q \<Longrightarrow> file_at (pid_stat n v l d) q = file_at d q"
  by (simp add: pid_stat_def Let_def pid_write_frame split: proc.split)

lemma pid_stat_healthy [simp]: "healthy d \<Longrightarrow> healthy (pid_stat n v l d)"
  by (auto simp: pid_stat_def Let_def inv_rules split: proc.split)

lemma file_stat_healthy [simp]: "healthy d \<Longrightarrow> healthy (snd (file_stat lb dir n v d))"
  by (cases v) (auto simp: file_stat_def Let_def inv_rules case_prod_unfold split: option.split)

lemma setstat_healthy [simp]: "healthy (l_disk l) \<Longrightarrow> healthy (l_disk (snd (setstat lb n v l)))"
  using file_stat_healthy [OF pid_stat_healthy]
  by (simp add: setstat_def Let_def case_prod_unfold)

lemma newstat_healthy [simp]: "healthy (l_disk l) \<Longrightarrow> healthy (l_disk (snd (newstat lb n l)))"
  by (simp add: newstat_def time_now_def)

lemma remstat_healthy [simp]: "healthy (l_disk l) \<Longrightarrow> healthy (l_disk (snd (remstat lb n l)))"
  by (simp add: remstat_def)

section \<open>Status files of a lobby\<close>

definition stat_path :: "lobby \<Rightarrow> bytes \<Rightarrow> bytes" where
  "stat_path l n = PJoin [StatDir (l_opts l), n]"

definition stat_file :: "lobby \<Rightarrow> bytes \<Rightarrow> gfile option" where
  "stat_file l n = file_at (l_disk l) (stat_path l n)"

definition stat_name :: "bytes \<Rightarrow> bool" where
  "stat_name n \<longleftrightarrow> simple_name n \<and> \<not> HasPrefix n ''last''"

lemma simple_stats [simp]: "stat_name ''players''" "stat_name ''full''" "stat_name ''idle''" "stat_name ''arena''" "stat_name ''match''"
  "stat_name ''up''" "stat_name ''session''"
  by (simp_all add: stat_name_def simple_name_def slash_def)

lemma stat_name_simple: "stat_name n \<Longrightarrow> simple_name n"
  by (simp add: stat_name_def)

lemma setstat_eq:
  assumes "StatDir (l_opts l) \<noteq> []" and "stat_name n"
  shows "setstat lb n v l = map_prod id (\<lambda>d. l\<lparr>l_disk := d\<rparr>)
           (file_stat lb (StatDir (l_opts l)) n v (pid_stat n v l (l_disk l)))"
  using assms by (simp add: setstat_def stat_name_def simple_name_def Let_def map_prod_def)

text \<open>Only the status named, its lock and its last value change.\<close>

lemma stat_file_other:
  assumes "StatDir (l_opts l) \<noteq> []" and "stat_name n" and "simple_name m"
    and "m \<noteq> n" and "m \<noteq> n @ ''.lock''" and "m \<noteq> ''last'' @ n" and "pid_apart l (stat_path l m)"
  shows "stat_file (snd (setstat lb n v l)) m = stat_file l m"
  using assms file_stat_frame [OF assms(1) stat_name_simple [OF assms(2)], of "stat_path l m"]
    PJoin_inj [OF assms(1,3)] simple_name_ext [of n] stat_paths(2) [OF assms(1,3)]
  by (simp add: stat_file_def stat_path_def setstat_eq pid_stat_frame stat_name_def)

lemma stat_file_set:
  assumes "StatDir (l_opts l) \<noteq> []" and "stat_name n" and "healthy (l_disk l)" and "stat_bytes lb v = Some bs"
  shows "map_option fl_data (stat_file (snd (setstat lb n (Some v) l)) n) = Some bs"
  using file_stat_set [OF assms(1) stat_name_simple [OF assms(2)] assms(4), of "pid_stat n (Some v) l (l_disk l)"]
    file_stat_set_healthy [OF assms(1) stat_name_simple [OF assms(2)] _ assms(4), of "pid_stat n (Some v) l (l_disk l)"]
    assms
  by (auto simp: stat_file_def stat_path_def setstat_eq split: prod.splits option.splits)

lemma stat_file_rem:
  assumes "StatDir (l_opts l) \<noteq> []" and "stat_name n" and "healthy (l_disk l)"
  shows "stat_file (snd (remstat lb n l)) n = None"
  using file_stat_rem [OF assms(1) stat_name_simple [OF assms(2)], where lb = lb and d = "pid_stat n None l (l_disk l)"]
    file_stat_rem_healthy(1) [OF assms(1) stat_name_simple [OF assms(2)], of "pid_stat n None l (l_disk l)" lb]
    assms
  by (auto simp: stat_file_def stat_path_def setstat_eq remstat_def split: prod.splits option.splits)

lemma file_stat_rem_frame:
  assumes "dir \<noteq> []" and "simple_name n" and "Clean q \<notin> {PJoin [dir, n], PJoin [dir, ''last'' @ n]}"
  shows "file_at (snd (file_stat lb dir n None d)) q = file_at d q"
proof -
  let ?f = "PJoin [dir, n]" and ?t = "PJoin [dir, ''last'' @ n]"
  have q: "Clean q \<noteq> Clean ?f" "Clean q \<noteq> Clean ?t" using stat_paths [OF assms(1,2)] assms(3) by simp_all
  have "file_at (snd (os_RemoveAll ?f (snd (os_Rename ?f ?t d)))) q = file_at d q"
    using os_frame(3) [OF q] os_frame(4) [OF q(1)] by simp
  with os_frame(3) [OF q] show ?thesis
    by (simp add: file_stat_def Let_def case_prod_unfold split: option.split)
qed

section \<open>Clearing the directory\<close>

lemma pid_stat_stopped: "(\<And>pid. l_proc l \<noteq> Running pid) \<Longrightarrow> pid_stat n v l d = d"
  by (cases "l_proc l") (auto simp: pid_stat_def)

lemma rem_entries:
  assumes dir: "dir \<noteq> []" "simple_name n" and ok: "fst (file_stat lb dir n None d) = None"
  shows "set (entries dir (snd (file_stat lb dir n None d))) \<subseteq> insert (''last'' @ n) (set (entries dir d) - {n})"
proof
  fix m assume "m \<in> set (entries dir (snd (file_stat lb dir n None d)))"
  then have m: "simple_name m" "file_at (snd (file_stat lb dir n None d)) (PJoin [dir, m]) \<noteq> None"
    using dir(1) by (simp_all add: entries_file_at)
  have "m \<noteq> n" using m(2) ok file_stat_rem [OF dir, where lb = lb and d = d] by (auto split: prod.splits option.splits)
  moreover have "file_at d (PJoin [dir, m]) \<noteq> None" if "m \<noteq> ''last'' @ n"
    using that m \<open>m \<noteq> n\<close> dir file_stat_rem_frame [OF dir, of "PJoin [dir, m]" lb d]
      simple_name_ext(2) [OF dir(2)] PJoin_inj [OF dir(1) m(1)] stat_paths(2) [OF dir(1) m(1)]
    by auto
  ultimately show "m \<in> insert (''last'' @ n) (set (entries dir d) - {n})"
    using m(1) dir(1) by (auto simp: entries_file_at)
qed

lemma rem_all_frame:
  "l_opts (snd (rem_all lb ns l)) = l_opts l" "l_proc (snd (rem_all lb ns l)) = l_proc l"
  by (induction ns arbitrary: l) (simp_all add: case_prod_unfold split: option.split)

lemma rem_all_entries:
  assumes "fst (rem_all lb ns l) = None" and "StatDir (l_opts l) \<noteq> []" and "\<And>pid. l_proc l \<noteq> Running pid"
    and "\<forall>n \<in> set ns. stat_name n"
  shows "\<forall>m \<in> set (entries (StatDir (l_opts l)) (l_disk (snd (rem_all lb ns l)))).
           HasPrefix m ''last'' \<or> m \<in> set (entries (StatDir (l_opts l)) (l_disk l)) - set ns"
  using assms
proof (induction ns arbitrary: l)
  case Nil
  then show ?case by simp
next
  case (Cons n ns)
  obtain e l1 where s: "setstat lb n None l = (e, l1)" by fastforce
  with Cons.prems(1) have e: "e = None" by (auto split: option.splits)
  let ?dir = "StatDir (l_opts l)"
  have n: "stat_name n" "simple_name n" using Cons.prems(4) by (simp_all add: stat_name_def)
  have l1: "l_opts l1 = l_opts l" "l_proc l1 = l_proc l" using setstat_frame(4,6) [of lb n None l] s by simp_all
  have f: "fst (file_stat lb ?dir n None (l_disk l)) = None" "l_disk l1 = snd (file_stat lb ?dir n None (l_disk l))"
    using s e setstat_eq [OF Cons.prems(2) n(1), of lb None] pid_stat_stopped [OF Cons.prems(3)]
    by (auto simp: map_prod_def split: prod.splits)
  have "\<forall>m \<in> set (entries ?dir (l_disk (snd (rem_all lb ns l1)))).
           HasPrefix m ''last'' \<or> m \<in> set (entries ?dir (l_disk l1)) - set ns"
    using Cons.IH [of l1] Cons.prems s e l1 by simp
  moreover have "m \<in> set (entries ?dir (l_disk l1)) \<Longrightarrow> HasPrefix m ''last'' \<or> m \<in> set (entries ?dir (l_disk l)) - {n}" for m
    using rem_entries [OF Cons.prems(2) n(2) f(1)] f(2) by auto
  ultimately show ?case using s e by (auto split: option.split)
qed

section \<open>Properties\<close>

text \<open>C15. A status is published atomically, whatever fails and wherever: the file a reader opens
  holds either the complete new value or exactly what it held before, and it is the new value if
  \<open>setstat\<close> reports success.\<close>

theorem stat_published_atomically:
  assumes "StatDir (l_opts l) \<noteq> []" and "stat_name n" and "pid_apart l (stat_path l n)"
  shows "let (e, l') = setstat lb n (Some v) l in
           (e = None \<and> stat_bytes lb v \<noteq> None \<and> map_option fl_data (stat_file l' n) = stat_bytes lb v)
           \<or> (e \<noteq> None \<and> stat_file l' n = stat_file l n)"
proof (cases "stat_bytes lb v")
  case None
  have "Clean (stat_path l n) = stat_path l n"
    using assms stat_paths(2) by (simp add: stat_path_def stat_name_def)
  with None assms show ?thesis
    by (simp add: setstat_eq file_stat_def stat_file_def stat_path_def pid_stat_frame)
next
  case (Some bs)
  then show ?thesis
    using file_stat_set [OF assms(1) stat_name_simple [OF assms(2)] Some, of "pid_stat n (Some v) l (l_disk l)"]
      setstat_eq [OF assms(1,2), of lb "Some v"] pid_stat_frame [OF assms(3), of n "Some v"]
    by (auto simp: stat_file_def stat_path_def split: prod.splits option.splits)
qed

theorem stat_published_atomically_witness:
  "let l = sample_lobby\<lparr>l_disk := \<lparr>d_files = [], d_fate = (\<lambda>n. if n = 3 then Some 2 else None), d_ops = 0\<rparr>\<rparr>;
       (e1, l1) = setstat sample_lib ''players'' (Some (SInt 7)) l;
       (e2, l2) = setstat sample_lib ''players'' (Some (SInt 8)) (l1\<lparr>l_disk := spent (l_disk l1)\<rparr>)
   in (e1 = None \<and> map_option fl_data (stat_file l1 ''players'') = Some ''7'')
    \<and> (e2 \<noteq> None \<and> stat_file l2 ''players'' = stat_file l1 ''players'')"
proof -
  let ?l = "sample_lobby\<lparr>l_disk := \<lparr>d_files = [], d_fate = (\<lambda>n. if n = 3 then Some 2 else None), d_ops = 0\<rparr>\<rparr>"
  obtain e1 l1 where s1: "setstat sample_lib ''players'' (Some (SInt 7)) ?l = (e1, l1)" by fastforce
  obtain e2 l2 where s2: "setstat sample_lib ''players'' (Some (SInt 8)) (l1\<lparr>l_disk := spent (l_disk l1)\<rparr>) = (e2, l2)"
    by fastforce
  have nm: "stat_name ''players''" by (simp add: stat_name_def simple_name_def slash_def)
  have c: "Clean ''/stat/players'' = ''/stat/players''" "PJoin [''/stat'', ''players''] = ''/stat/players''"
    "Clean ''/stat/players.lock'' = ''/stat/players.lock''"
    by (simp_all add: PJoin_def Clean_def render_def resolve_def rooted_def comps_def slash_def resolve_step_def)
  have o: "pid_apart ?l p" for p
    by (simp add: pid_apart_def)
  have f1: "l_opts l1 = l_opts ?l" using setstat_frame(4) [of sample_lib "''players''" "Some (SInt 7)" ?l] s1 by simp
  have pid: "pid_stat ''players'' v l d = d" for v l d by (simp add: pid_stat_def split: proc.split)
  have e1: "e1 = None" and d1: "d_ops (l_disk l1) = 2" "d_fate (l_disk l1) = d_fate (l_disk ?l)"
    using s1 by (auto simp: setstat_eq nm pid file_stat_def c stat_bytes_def os_WriteFile_def
        os_Rename_def fate_def)
  then have e2: "e2 \<noteq> None"
    using s2 by (auto simp: setstat_eq f1 nm pid file_stat_def c stat_bytes_def os_WriteFile_def fate_def numeral_2_eq_2)
  have i7: "Itoa 7 = ''7''" by code_simp
  have "map_option fl_data (stat_file l1 ''players'') = Some ''7''"
    using stat_published_atomically [OF _ nm o, of sample_lib "SInt 7"] s1 e1
    by (simp add: stat_bytes_def i7)
  moreover have "stat_file l2 ''players'' = stat_file l1 ''players''"
    using stat_published_atomically [of "l1\<lparr>l_disk := spent (l_disk l1)\<rparr>" "''players''" sample_lib "SInt 8"]
      nm s2 e2 f1 by (simp add: pid_apart_def stat_file_def stat_path_def)
  ultimately show ?thesis using s1 s2 e1 e2 by simp
qed




text \<open>C37. A cleared status directory holds last values only, and only ones that were there or that
  are the last value of a status: \<open>remstats\<close> leaves nothing that could be taken for the status of
  a running lobby when it succeeds. It runs before the game starts and after it has exited.\<close>

theorem remstats_leaves_last_values:
  assumes "remstats lb [] l = (None, l')" and "StatDir (l_opts l) \<noteq> []" and "\<And>pid. l_proc l \<noteq> Running pid"
  shows "\<forall>n \<in> set (entries (StatDir (l_opts l)) (l_disk l')). HasPrefix n ''last''"
proof -
  let ?dir = "StatDir (l_opts l)"
  let ?ns = "filter (\<lambda>n. \<not> HasPrefix n ''last'') (entries ?dir (l_disk l))"
  let ?l = "l\<lparr>l_disk := spent (l_disk l)\<rparr>"
  have ra: "rem_all lb ?ns ?l = (None, l')"
    using assms(1,2) by (auto simp: remstats_def os_ReadDir_def split: if_splits)
  have "\<forall>n \<in> set ?ns. stat_name n" using assms(2) by (auto simp: stat_name_def entries_file_at)
  with rem_all_entries [of lb ?ns ?l] ra assms(2,3)
  have "\<forall>m \<in> set (entries ?dir (l_disk l')). HasPrefix m ''last'' \<or> m \<in> set (entries ?dir (l_disk l)) - set ?ns"
    by simp
  then show ?thesis by auto
qed

definition cluttered_lobby :: lobby where
  "cluttered_lobby = sample_lobby\<lparr>l_proc := Exited 42,
     l_disk := \<lparr>d_files = [(''/stat/lastup'', \<lparr>fl_data = ''0'', fl_meta = None\<rparr>),
        (''/stat/up'', \<lparr>fl_data = ''1'', fl_meta = None\<rparr>), (''/stat/x'', \<lparr>fl_data = ''2'', fl_meta = None\<rparr>)],
        d_fate = (\<lambda>_. None), d_ops = 0\<rparr>\<rparr>"

theorem remstats_leaves_last_values_witness:
  "fst (remstats sample_lib [] cluttered_lobby) = None
   \<and> entries ''/stat'' (l_disk (snd (remstats sample_lib [] cluttered_lobby))) = [''lastup'', ''lastx'']
   \<and> list_all (\<lambda>n. HasPrefix n ''last'') (entries ''/stat'' (l_disk (snd (remstats sample_lib [] cluttered_lobby))))"
proof -
  let ?r = "remstats sample_lib [] cluttered_lobby"
  have e: "fst ?r = None" and n: "entries ''/stat'' (l_disk (snd ?r)) = [''lastup'', ''lastx'']"
    by code_simp+
  have "\<forall>n \<in> set (entries (StatDir (l_opts cluttered_lobby)) (l_disk (snd ?r))). HasPrefix n ''last''"
    by (rule remstats_leaves_last_values) (use e in \<open>auto simp: cluttered_lobby_def prod_eq_iff\<close>)
  with e n show ?thesis by (simp add: cluttered_lobby_def list_all_iff)
qed

end
