(* ===== verification/LobbyCollect.thy ===== *)
theory LobbyCollect
  imports LobbyStat
begin

text \<open>
  \<open>internal/lobby/collect.go\<close>: the match in progress is handed to the collectors when it ends
  (\<open>collect\<close>), over a channel that holds ten, and a collector writes each match twice, as it is
  and without identities, as compressed JSON with the attributes the upload reads
  (\<open>writeMatchFile\<close>, deferred calls in the order Go runs them). \<open>collector_step\<close> is one round of
  the collector's loop on a match it received.
\<close>

abbreviation (input) "queue_cap \<equiv> 10 :: nat"

definition send_match :: "gmatch \<Rightarrow> lobby \<Rightarrow> lobby" where
  "send_match m l =
     (case l_matches_chan l of
        NilChan \<Rightarrow> l
      | ClosedChan \<Rightarrow> l\<lparr>l_panic := True\<rparr>
      | OpenChan \<Rightarrow> if length (l_matches l) < queue_cap then l\<lparr>l_matches := l_matches l @ [m]\<rparr> else l)"

definition start_match :: "lobby \<Rightarrow> lobby" where
  "start_match l = (case time_now l of (now, l) \<Rightarrow> l\<lparr>l_m := new_match now\<rparr>)"

definition collect :: "lib \<Rightarrow> lobby \<Rightarrow> lobby" where
  "collect lb l =
     (if MatchID (l_m l) = '''' then
        (case time_now l of (now, l) \<Rightarrow> l\<lparr>l_m := (l_m l)\<lparr>Timestamp := now\<rparr>\<rparr>)
      else
        let l = (if KillData (l_m l) = [] then start_match l else start_match (send_match (l_m l) l))
        in snd (remstat lb ''match'' l))"

section \<open>The collector\<close>

definition match_meta :: "bytes \<Rightarrow> meta" where
  "match_meta session =
     (let sm = \<lparr>ContentType = ''application/json'', ContentDisposition = ''inline'',
                ContentLanguage = ''en-US'', ContentEncoding = ''gzip'',
                Metadata = [(''lobby'', session)]\<rparr>;
          fields = Fields session
      in if length fields = 4 \<and> (fields ! 0 = ''VRML'' \<or> fields ! 0 = ''VXL'') then
           sm\<lparr>Metadata := AList.update ''team1'' (fields ! 3)
             (AList.update ''team0'' (fields ! 1) (AList.update ''assoc'' (fields ! 0) (Metadata sm)))\<rparr>
         else sm)"

definition write_body :: "lib \<Rightarrow> gmatch \<Rightarrow> bytes \<Rightarrow> disk \<Rightarrow> goerror option \<times> disk" where
  "write_body lb m lock d =
     (case marshal_match lb m of
        None \<Rightarrow> (Some err_json, snd (fd_Write lock (gzip_close lb '''') d))
      | Some bs \<Rightarrow>
          (case fd_Write lock (gzip_write lb bs) d of
             (Some e, d) \<Rightarrow> (Some e, d)
           | (None, d) \<Rightarrow> (None, snd (fd_Write lock (gzip_close lb bs) d))))"

definition writeMatchFile :: "lib \<Rightarrow> gmatch \<Rightarrow> meta \<Rightarrow> bytes \<Rightarrow> disk \<Rightarrow> goerror option \<times> disk" where
  "writeMatchFile lb m sm file d =
     (case marshal_meta lb sm of
        None \<Rightarrow> (Some err_json, d)
      | Some bs \<Rightarrow>
          let lock = file @ ''.lock'' in
          (case os_Create lock d of
             (Some e, d) \<Rightarrow> (Some e, d)
           | (None, d) \<Rightarrow>
               (case write_body lb m lock d of
                  (e, d) \<Rightarrow> (e, snd (os_Rename lock file (snd (xattr_Set lock bs d)))))))"

definition write_or_cancel :: "lib \<Rightarrow> gmatch \<Rightarrow> meta \<Rightarrow> bytes \<Rightarrow> lobby \<Rightarrow> lobby" where
  "write_or_cancel lb m sm file l =
     (case writeMatchFile lb m sm file (l_disk l) of
        (e, d) \<Rightarrow> let l = l\<lparr>l_disk := d\<rparr> in if e \<noteq> None then cancel lb ErrLobbyBad l else l)"

definition match_stamp :: "lib \<Rightarrow> gmatch \<Rightarrow> bytes" where
  "match_stamp lb m = ReplaceAll (format_time lb (Timestamp m)) (CHR 0x3A) ''_''"

definition collector_step :: "lib \<Rightarrow> gmatch \<Rightarrow> lobby \<Rightarrow> lobby" where
  "collector_step lb m l =
     (let sm = match_meta (l_session l);
          m = Normalize m;
          ts = match_stamp lb m;
          l = write_or_cancel lb m sm (PJoin [LogDir (l_opts l), ts @ ''-match.json.gz'']) l;
          m = Anonymize m
      in write_or_cancel lb m sm (PJoin [LogDir (l_opts l), ts @ ''-clean.json.gz'']) l)"

text \<open>The loop of one collector over the matches it received, and the deferred \<open>Cancel\<close> at its end.
  With no log directory a collector returns at once.\<close>

definition collector :: "lib \<Rightarrow> gmatch list \<Rightarrow> lobby \<Rightarrow> lobby" where
  "collector lb ms l =
     (if LogDir (l_opts l) = '''' then l
      else cancel lb ErrLobbyDone (fold (collector_step lb) ms l))"

section \<open>What the handlers leave alone\<close>

lemma send_match_frame [simp, frame]:
  "l_arena (send_match m l) = l_arena l" "l_session (send_match m l) = l_session l"
  "l_changed (send_match m l) = l_changed l" "l_opts (send_match m l) = l_opts l"
  "l_spec (send_match m l) = l_spec l" "l_proc (send_match m l) = l_proc l" "l_m (send_match m l) = l_m l"
  "l_matches_chan (send_match m l) = l_matches_chan l" "l_players (send_match m l) = l_players l"
  "l_t1 (send_match m l) = l_t1 l" "l_t2 (send_match m l) = l_t2 l" "l_done (send_match m l) = l_done l"
  "l_reason (send_match m l) = l_reason l" "l_disk (send_match m l) = l_disk l"
  "l_out (send_match m l) = l_out l" "l_sent (send_match m l) = l_sent l"
  "l_clock (send_match m l) = l_clock l" "l_reads (send_match m l) = l_reads l"
  by (simp_all add: send_match_def split: chan.split)

lemma collect_frame [simp, frame]:
  "l_arena (collect lb l) = l_arena l" "l_session (collect lb l) = l_session l"
  "l_changed (collect lb l) = l_changed l" "l_opts (collect lb l) = l_opts l"
  "l_spec (collect lb l) = l_spec l" "l_proc (collect lb l) = l_proc l"
  "l_matches_chan (collect lb l) = l_matches_chan l" "l_players (collect lb l) = l_players l"
  "l_t1 (collect lb l) = l_t1 l" "l_t2 (collect lb l) = l_t2 l" "l_done (collect lb l) = l_done l"
  "l_reason (collect lb l) = l_reason l" "l_out (collect lb l) = l_out l" "l_sent (collect lb l) = l_sent l"
  "l_clock (collect lb l) = l_clock l" "l_reads (collect lb l) = Suc (l_reads l)"
  by (simp_all add: collect_def time_now_def start_match_def Let_def)

text \<open>What happens to the match in progress, on every branch.\<close>

lemma collect_m:
  "l_m (collect lb l) =
     (if MatchID (l_m l) = '''' then (l_m l)\<lparr>Timestamp := l_clock l (l_reads l)\<rparr>
      else new_match (l_clock l (l_reads l)))"
  by (simp add: collect_def time_now_def start_match_def Let_def)

lemma collect_matches:
  "l_matches_chan l = OpenChan \<Longrightarrow> l_matches (collect lb l) =
     (if MatchID (l_m l) \<noteq> '''' \<and> KillData (l_m l) \<noteq> [] \<and> length (l_matches l) < queue_cap
      then l_matches l @ [l_m l] else l_matches l)"
  by (simp add: collect_def time_now_def start_match_def send_match_def Let_def)

lemma collect_panic:
  "l_matches_chan l \<noteq> ClosedChan \<Longrightarrow> l_panic (collect lb l) = l_panic l"
  by (simp add: collect_def time_now_def start_match_def send_match_def Let_def split: chan.split)

lemma MatchID_new [simp]: "MatchID (new_match t) = ''''" "KillData (new_match t) = []" "Timestamp (new_match t) = t"
  by (simp_all add: new_match_def)

lemma collect_MatchID [simp]: "MatchID (l_m (collect lb l)) = ''''"
  by (simp add: collect_m)

lemma collect_disk:
  "l_disk (collect lb l) =
     (if MatchID (l_m l) = '''' then l_disk l else l_disk (snd (remstat lb ''match'' l)))"
proof -
  have "l_disk (snd (setstat lb ''match'' None l')) = l_disk (snd (setstat lb ''match'' None l))"
    if "l_disk l' = l_disk l" "l_opts l' = l_opts l" for l'
  proof -
    have "pid_stat ''match'' None l' d = d" "pid_stat ''match'' None l d = d" for d
      by (simp_all add: pid_stat_def split: proc.split)
    with that show ?thesis by (simp add: setstat_def Let_def case_prod_unfold)
  qed
  from this [of "start_match l"] this [of "start_match (send_match (l_m l) l)"] show ?thesis
    by (simp add: collect_def time_now_def start_match_def Let_def remstat_def)
qed

lemma collect_healthy [simp]: "healthy (l_disk l) \<Longrightarrow> healthy (l_disk (collect lb l))"
  by (simp add: collect_disk)

section \<open>Match files on a disk that works\<close>

lemma lock_clean:
  "dir \<noteq> [] \<Longrightarrow> simple_name n \<Longrightarrow> Clean (PJoin [dir, n] @ ''.lock'') \<noteq> Clean (PJoin [dir, n])"
  using stat_paths [of dir n] by simp

lemma writeMatchFile_healthy:
  assumes "dir \<noteq> []" and "simple_name n" and "healthy d"
    and "marshal_meta lb sm = Some mb" and "marshal_match lb m = Some bs"
  shows "\<exists>d'. writeMatchFile lb m sm (PJoin [dir, n]) d = (None, d') \<and> healthy d'
    \<and> file_at d' (PJoin [dir, n]) = Some \<lparr>fl_data = gzip_write lb bs @ gzip_close lb bs, fl_meta = Some mb\<rparr>
    \<and> (\<forall>q. Clean q \<notin> {PJoin [dir, n], PJoin [dir, n @ ''.lock'']} \<longrightarrow> file_at d' q = file_at d q)"
proof -
  let ?f = "PJoin [dir, n]" and ?k = "PJoin [dir, n] @ ''.lock''"
  note p = stat_paths [OF assms(1,2)] PJoin_nonempty [OF assms(1,2)]
  have k: "?k \<noteq> []" "Clean ?f \<noteq> Clean ?k" using lock_clean [OF assms(1,2)] by simp_all
  let ?d1 = "put_file ?k (written ?k '''' d) (spent d)"
  let ?d2 = "put_file ?k ((written ?k '''' d)\<lparr>fl_data := gzip_write lb bs\<rparr>) (spent ?d1)"
  let ?d3 = "put_file ?k ((written ?k '''' d)\<lparr>fl_data := gzip_write lb bs @ gzip_close lb bs\<rparr>) (spent ?d2)"
  let ?d4 = "put_file ?k \<lparr>fl_data = gzip_write lb bs @ gzip_close lb bs, fl_meta = Some mb\<rparr> (spent ?d3)"
  let ?d5 = "put_file ?f \<lparr>fl_data = gzip_write lb bs @ gzip_close lb bs, fl_meta = Some mb\<rparr> (drop_file ?k (spent ?d4))"
  have "os_Create ?k d = (None, ?d1)" using k assms(3) by (simp add: os_Create_def)
  moreover have "fd_Write ?k (gzip_write lb bs) ?d1 = (None, ?d2)" using assms(3) by (simp add: fd_Write_def)
  moreover have "fd_Write ?k (gzip_close lb bs) ?d2 = (None, ?d3)" using assms(3) by (simp add: fd_Write_def)
  moreover have "xattr_Set ?k mb ?d3 = (None, ?d4)" using assms(3) by (simp add: xattr_Set_def written_def)
  moreover have "os_Rename ?k ?f ?d4 = (None, ?d5)" using assms(3) p by (simp add: os_Rename_def)
  ultimately have "writeMatchFile lb m sm ?f d = (None, ?d5)"
    using assms(4,5) by (simp add: writeMatchFile_def write_body_def Let_def)
  moreover have "healthy ?d5" using assms(3) by simp
  moreover have "file_at ?d5 q = file_at d q" if "Clean q \<notin> {?f, PJoin [dir, n @ ''.lock'']}" for q
    using that p k by auto
  ultimately show ?thesis by auto
qed

definition match_file :: "lib \<Rightarrow> lobby \<Rightarrow> gmatch \<Rightarrow> bytes \<Rightarrow> bytes" where
  "match_file lb l m kind = PJoin [LogDir (l_opts l), match_stamp lb m @ kind]"

lemma simple_stamp:
  "slash \<notin> set (format_time lb (Timestamp m)) \<Longrightarrow> slash \<notin> set k \<Longrightarrow> 2 < length k \<Longrightarrow> simple_name (match_stamp lb m @ k)"
  by (auto simp: simple_name_def match_stamp_def ReplaceAll_def slash_def dest: arg_cong [where f = length] split: if_splits)

definition gz :: "lib \<Rightarrow> bytes \<Rightarrow> bytes" where
  "gz lb bs = gzip_write lb bs @ gzip_close lb bs"

lemma match_files_written_lemma:
  assumes "LogDir (l_opts l) \<noteq> []" and "healthy (l_disk l)" and "slash \<notin> set (format_time lb (Timestamp m))"
    and "marshal_meta lb (match_meta (l_session l)) = Some mb"
    and "marshal_match lb (Normalize m) = Some b1" and "marshal_match lb (Anonymize (Normalize m)) = Some b2"
  shows "let l' = collector_step lb m l in
      file_at (l_disk l') (match_file lb l m ''-match.json.gz'') = Some \<lparr>fl_data = gz lb b1, fl_meta = Some mb\<rparr>
    \<and> file_at (l_disk l') (match_file lb l m ''-clean.json.gz'') = Some \<lparr>fl_data = gz lb b2, fl_meta = Some mb\<rparr>
    \<and> CHR 0x3A \<notin> set (match_stamp lb m) \<and> l_reason l' = l_reason l \<and> healthy (l_disk l')"
proof -
  let ?sm = "match_meta (l_session l)" and ?dir = "LogDir (l_opts l)" and ?ts = "match_stamp lb m"
  have st: "match_stamp lb (Normalize m) = ?ts" by (simp add: match_stamp_def Normalize_def)
  have n1: "simple_name (?ts @ ''-match.json.gz'')" and n2: "simple_name (?ts @ ''-clean.json.gz'')"
    using simple_stamp [OF assms(3)] by (simp_all add: slash_def)
  obtain d1 where d1: "writeMatchFile lb (Normalize m) ?sm (PJoin [?dir, ?ts @ ''-match.json.gz'']) (l_disk l) = (None, d1)"
    "healthy d1" "file_at d1 (PJoin [?dir, ?ts @ ''-match.json.gz'']) = Some \<lparr>fl_data = gz lb b1, fl_meta = Some mb\<rparr>"
    using writeMatchFile_healthy [OF assms(1) n1 assms(2,4,5)] unfolding gz_def by blast
  obtain d2 where d2: "writeMatchFile lb (Anonymize (Normalize m)) ?sm (PJoin [?dir, ?ts @ ''-clean.json.gz'']) d1 = (None, d2)"
    "healthy d2" "file_at d2 (PJoin [?dir, ?ts @ ''-clean.json.gz'']) = Some \<lparr>fl_data = gz lb b2, fl_meta = Some mb\<rparr>"
    "\<forall>q. Clean q \<notin> {PJoin [?dir, ?ts @ ''-clean.json.gz''], PJoin [?dir, (?ts @ ''-clean.json.gz'') @ ''.lock'']}
       \<longrightarrow> file_at d2 q = file_at d1 q"
    using writeMatchFile_healthy [OF assms(1) n2 d1(2) assms(4,6)] unfolding gz_def by blast
  have "file_at d2 (PJoin [?dir, ?ts @ ''-match.json.gz'']) = file_at d1 (PJoin [?dir, ?ts @ ''-match.json.gz''])"
    using d2(4) PJoin_inj [OF assms(1) n1 n2] PJoin_inj [OF assms(1) n1 simple_name_ext(1) [OF n2]]
      stat_paths(2) [OF assms(1) n1] by simp
  moreover have "l_disk (collector_step lb m l) = d2" "l_reason (collector_step lb m l) = l_reason l"
    using d1(1) d2(1) by (simp_all add: collector_step_def Let_def write_or_cancel_def st)
  ultimately show ?thesis
    using d1(3) d2(2,3) by (simp add: match_file_def match_stamp_def ReplaceAll_removes)
qed

text \<open>C14. On a disk that works the collector publishes each match as two files: one with the
  normalized match and one with the same match made anonymous, each complete, carrying the
  upload attributes, under names without the colons Windows forbids, and the lobby goes on.\<close>

theorem match_files_written:
  assumes "LogDir (l_opts l) \<noteq> []" and "healthy (l_disk l)" and "slash \<notin> set (format_time lb (Timestamp m))"
    and "marshal_meta lb (match_meta (l_session l)) = Some mb"
    and "marshal_match lb (Normalize m) = Some b1" and "marshal_match lb (Anonymize (Normalize m)) = Some b2"
  shows "let l' = collector_step lb m l in
      file_at (l_disk l') (match_file lb l m ''-match.json.gz'') = Some \<lparr>fl_data = gz lb b1, fl_meta = Some mb\<rparr>
    \<and> file_at (l_disk l') (match_file lb l m ''-clean.json.gz'') = Some \<lparr>fl_data = gz lb b2, fl_meta = Some mb\<rparr>
    \<and> CHR 0x3A \<notin> set (match_stamp lb m) \<and> l_reason l' = l_reason l \<and> healthy (l_disk l')"
  using assms by (rule match_files_written_lemma)

lemma sample_stamp: "format_time sample_lib (Timestamp sample_match) = ''7''"
proof -
  have "Itoa 7 = ''7''" by code_simp
  then show ?thesis by (simp add: sample_lib_def sample_match_def)
qed

theorem match_files_written_witness:
  "let m = sample_match\<lparr>KillData := []\<rparr>; l' = collector_step sample_lib m sample_lobby in
      data_at (l_disk l') ''/log/7-match.json.gz'' = Some ''id.''
    \<and> data_at (l_disk l') ''/log/7-clean.json.gz'' = Some ''.''"
proof -
  let ?m = "sample_match\<lparr>KillData := []\<rparr>"
  have f: "format_time sample_lib (Timestamp ?m) = ''7''" by (simp add: sample_stamp)
  have p: "match_file sample_lib sample_lobby ?m ''-match.json.gz'' = ''/log/7-match.json.gz''"
    "match_file sample_lib sample_lobby ?m ''-clean.json.gz'' = ''/log/7-clean.json.gz''"
    by (simp_all add: match_file_def match_stamp_def ReplaceAll_def sample_stamp PJoin_def Clean_def render_def resolve_def rooted_def comps_def
        slash_def resolve_step_def)
  have "healthy (l_disk sample_lobby)" by (simp add: sample_disk_def healthy_def)
  moreover have "marshal_meta sample_lib (match_meta (l_session sample_lobby)) = Some ''application/json''"
    "marshal_match sample_lib (Normalize ?m) = Some ''id''"
    "marshal_match sample_lib (Anonymize (Normalize ?m)) = Some ''''"
    by (simp_all add: sample_lib_def match_meta_def Let_def Normalize_def Anonymize_def sample_match_def new_match_def)
  ultimately show ?thesis
    using match_files_written [of sample_lobby sample_lib ?m "''application/json''" "''id''" "''''"] f
    unfolding p Let_def by (simp add: gz_def slash_def) (simp add: sample_lib_def)
qed




section \<open>The teams of a league match\<close>

definition ascii_word :: "bytes \<Rightarrow> bool" where
  "ascii_word w \<longleftrightarrow> w \<noteq> '''' \<and> (\<forall>c \<in> set w. (0x20 :: nat) < of_char c \<and> (of_char c :: nat) < 0x80)"

definition nbsp :: bytes where
  "nbsp = [CHR 0xC2, CHR 0xA0]"

lemma lead_space_ascii:
  assumes "(0x20 :: nat) < of_char c" and "(of_char c :: nat) < 0x80"
  shows "lead_space (c # s) = None"
proof -
  have "\<not> HasPrefix (c # s) r" if "r \<in> set space_runes" for r
    using that assms by (auto simp: space_runes_def)
  then show ?thesis by (auto simp: lead_space_def find_None_iff)
qed

lemma lead_space_nbsp: "lead_space (nbsp @ s) = Some nbsp"
proof -
  have "CHR 0xC2 \<noteq> char_of n" if "n < 128" for n :: nat
    using that by (simp add: char_of_def bit_iff_odd drop_bit_eq_div)
  then show ?thesis by (simp add: lead_space_def space_runes_def nbsp_def)
qed

lemma fields_ascii:
  "\<forall>c \<in> set w. (0x20 :: nat) < of_char c \<and> (of_char c :: nat) < 0x80 \<Longrightarrow> fields_from v (w @ s) = fields_from (v @ w) s"
proof (induction w arbitrary: v)
  case (Cons c w)
  then have "lead_space (c # w @ s) = None" by (simp add: lead_space_ascii)
  then have "fields_from v (c # w @ s) = fields_from (v @ [c]) (w @ s)"
    by (simp add: fields_from.simps [of v "c # w @ s"])
  with Cons show ?case by simp
qed simp

lemma fields_nbsp: "w \<noteq> [] \<Longrightarrow> fields_from w (nbsp @ s) = w # fields_from [] s"
  by (simp add: fields_from.simps [of w "nbsp @ s"] lead_space_nbsp flush_field_def)

lemma fields_end: "w \<noteq> [] \<Longrightarrow> fields_from w [] = [w]"
  by (simp add: fields_from.simps [of w "[]"] lead_space_def space_runes_def flush_field_def)

lemma Fields_words: "ws \<noteq> [] \<Longrightarrow> \<forall>w \<in> set ws. ascii_word w \<Longrightarrow> Fields (Join ws nbsp) = ws"
  unfolding Fields_def
proof (induction ws nbsp rule: Join.induct)
  case (2 w)
  then show ?case using fields_ascii [of w "[]" "[]"] by (simp add: ascii_word_def fields_end)
next
  case (3 w w' ws)
  then show ?case using fields_ascii [of w "[]" "nbsp @ Join (w' # ws) nbsp"]
    by (simp add: ascii_word_def fields_nbsp)
qed simp

lemma ReplaceAll_Join:
  "\<forall>w \<in> set ws. c \<notin> set w \<Longrightarrow> ReplaceAll (Join ws [c]) c new = Join ws new"
proof (induction ws "[c]" rule: Join.induct)
  case (3 w w' ws)
  have "ReplaceAll (Join (w # w' # ws) [c]) c new = ReplaceAll w c new @ new @ ReplaceAll (Join (w' # ws) [c]) c new"
    by (simp add: ReplaceAll_append) (simp add: ReplaceAll_def)
  with 3 show ?case by (simp add: ReplaceAll_none)
next
  case 1
  then show ?case by (simp add: ReplaceAll_def)
qed (simp add: ReplaceAll_none)

text \<open>C38. The file of a league match names the league and both teams: a session of four words such as
  \<open>VRML home vs away\<close>, whose spaces the lobby has turned into no-break spaces to make it a room
  name, is taken apart into the same words again.\<close>

theorem league_teams_recovered:
  assumes "\<forall>w \<in> set [league, home, vs, away]. ascii_word w" and "league = ''VRML'' \<or> league = ''VXL''"
    and "l_session l = ReplaceAll (Join [league, home, vs, away] '' '') (CHR 0x20) nbsp"
  shows "map_of (Metadata (match_meta (l_session l))) =
     [''lobby'' \<mapsto> l_session l, ''assoc'' \<mapsto> league, ''team0'' \<mapsto> home, ''team1'' \<mapsto> away]"
proof -
  have "\<forall>w \<in> set [league, home, vs, away]. CHR 0x20 \<notin> set w" using assms(1) by (force simp: ascii_word_def)
  then have "l_session l = Join [league, home, vs, away] nbsp" unfolding assms(3) by (rule ReplaceAll_Join)
  then have "Fields (l_session l) = [league, home, vs, away]"
    using Fields_words [of "[league, home, vs, away]"] assms(1) by simp
  then show ?thesis using assms(2) by (auto simp: match_meta_def Let_def)
qed

theorem league_teams_recovered_witness:
  "let l = sample_lobby\<lparr>l_session := ReplaceAll ''VRML Foo vs Bar'' (CHR 0x20) nbsp\<rparr> in
   map_of (Metadata (match_meta (l_session l))) =
     [''lobby'' \<mapsto> l_session l, ''assoc'' \<mapsto> ''VRML'', ''team0'' \<mapsto> ''Foo'', ''team1'' \<mapsto> ''Bar'']"
  unfolding Let_def by (rule league_teams_recovered [where vs = "''vs''"]) (simp_all add: ascii_word_def)

section \<open>Losses nobody hears of\<close>

text \<open>The deferred \<open>Rename\<close> runs after the error is known and its own result is dropped. A match that
  cannot be encoded is published as a file without it, and a file that cannot be renamed stays a
  lock file although \<open>writeMatchFile\<close> reports success.\<close>

lemma failed_encoding_is_published:
  assumes "dir \<noteq> []" and "simple_name n" and "healthy d"
    and "marshal_meta lb sm = Some mb" and "marshal_match lb m = None"
  shows "\<exists>d'. writeMatchFile lb m sm (PJoin [dir, n]) d = (Some err_json, d')
    \<and> data_at d' (PJoin [dir, n]) = Some (gzip_close lb '''')"
  using stat_paths [OF assms(1,2)] PJoin_nonempty [OF assms(1,2)] assms
  by (auto simp: writeMatchFile_def write_body_def Let_def os_Create_def fd_Write_def xattr_Set_def os_Rename_def)

lemma failed_rename_is_silent:
  "\<exists>d'. writeMatchFile sample_lib (new_match 0) (match_meta ''s'') ''/log/x'' \<lparr>d_files = [], d_fate = (\<lambda>n. if n = 4 then Some 0 else None), d_ops = 0\<rparr> = (None, d')
    \<and> file_at d' ''/log/x'' = None"
proof -
  have c: "Clean ''/log/x'' = ''/log/x''" "Clean ''/log/x.lock'' = ''/log/x.lock''"
    by (simp_all add: Clean_def render_def resolve_def rooted_def comps_def slash_def resolve_step_def)
  have m: "marshal_meta sample_lib sm = Some (ContentType sm)" "marshal_match sample_lib m = Some (MatchID m)" for sm m
    by (simp_all add: sample_lib_def)
  show ?thesis
    by (simp add: writeMatchFile_def m write_body_def Let_def os_Create_def fate_def fd_Write_def xattr_Set_def os_Rename_def c)
       (simp add: file_at_def c)
qed

end
