(* ===== verification/LobbyScan.thy ===== *)
theory LobbyScan
  imports LobbyCollect
begin

text \<open>
  \<open>internal/lobby/scan.go\<close>: what the game prints drives the lobby. \<open>scan_lines\<close> is the
  \<open>bufio.Scanner\<close> the code configures, \<open>lfilter\<close>, \<open>filterjson\<close> and \<open>filterbolt\<close> are the methods
  on one line (\<open>lfilter\<close> is \<open>filter\<close>), \<open>scan_line\<close> is one round of the scanner's loop and
  \<open>scanner_end\<close> its deferred calls. A nil slice is the empty one, which is all the scanner looks at.
\<close>

definition stdoutIgnorePrefixes :: "bytes list" where
  "stdoutIgnorePrefixes =
     [''(Filename:'', ''-- BOLT -- ArenaSidesSwapped Changed'', ''-- BOLT -- CountdownStartTime Changed'']"

definition stderrIgnorePrefixes :: "bytes list" where
  "stderrIgnorePrefixes =
     [''ALSA lib conf.c:'', ''ALSA lib confmisc.c:'', ''ALSA lib pcm.c:'', ''Unable to connect to 127.'',
      ''[S_API'', ''dlopen failed trying to load:'', ''with error:'']"

definition stderrIgnoreContains :: "bytes list" where
  "stderrIgnoreContains = [''.steam/sdk64/steamclient.so'']"

definition truncate_line :: "bytes \<Rightarrow> nat \<Rightarrow> bytes" where
  "truncate_line bs n =
     (if length bs < n then bs
      else take n bs @ ''... ('' @ Itoa (int (length bs) - int n) @ '' bytes)'')"

abbreviation (input) "trunc \<equiv> 66 :: nat"

section \<open>Lines of JSON\<close>

definition match_started :: "lib \<Rightarrow> lobby \<Rightarrow> lobby" where
  "match_started lb l = snd (newstat lb ''match'' l)"

definition set_match :: "lib \<Rightarrow> gmatch \<Rightarrow> lobby \<Rightarrow> lobby" where
  "set_match lb m l =
     (let l = (if MatchID m \<noteq> MatchID (l_m l) then collect lb l else l);
          m = m\<lparr>Timestamp := Timestamp (l_m l)\<rparr>;
          l = l\<lparr>l_m := m\<rparr>;
          i = Index (MatchID m) (l_session l)
      in if i = -1 \<or> i = int (length (MatchID m)) - int (length (l_session l)) then match_started lb l
         else case parse_match_time lb (drop (nat i + length (l_session l)) (MatchID m)) of
           None \<Rightarrow> match_started lb l
         | Some t \<Rightarrow> match_started lb (l\<lparr>l_m := (l_m l)\<lparr>Timestamp := t\<rparr>\<rparr>))"

definition filterjson :: "lib \<Rightarrow> bytes \<Rightarrow> lobby \<Rightarrow> (bytes \<times> goerror option) \<times> lobby" where
  "filterjson lb bs l =
     ((truncate_line bs trunc, None),
      if LogDir (l_opts l) = '''' then l
      else if length bs < trunc then l
      else if Index (take trunc bs) ''\"shooterId\"'' \<noteq> -1 then
        (case unmarshal_kill lb bs of
           None \<Rightarrow> l
         | Some k \<Rightarrow> l\<lparr>l_m := (l_m l)\<lparr>KillData := KillData (l_m l) @ [k]\<rparr>\<rparr>)
      else if Index (take trunc bs) ''\"matchId\"'' \<noteq> -1 then
        (case unmarshal_match lb bs of
           None \<Rightarrow> l
         | Some m \<Rightarrow> set_match lb m l)
      else l)"

section \<open>Lines of the networking library\<close>

definition registeredPlayer where "registeredPlayer = ''-- BOLT -- Registered player: ''"
definition unregisteredPlayer where "unregisteredPlayer = ''-- BOLT -- Unregistered player: ''"
definition loadingArenaName where "loadingArenaName = ''-- BOLT -- Loading arena name: ''"
definition arenaSpecNameChanged where "arenaSpecNameChanged = ''-- BOLT -- ArenaSpecName Changed''"
definition ballsPerSecondChanged where "ballsPerSecondChanged = ''-- BOLT -- BallsPerSecond Changed''"
definition playerAssigned where "playerAssigned = ''-- BOLT -- Player assigned ''"
definition remoteCallbacks where "remoteCallbacks = ''-- BOLT -- REMOTE CALLBACKS ''"

lemmas bolt_defs = registeredPlayer_def unregisteredPlayer_def loadingArenaName_def
  arenaSpecNameChanged_def ballsPerSecondChanged_def playerAssigned_def remoteCallbacks_def

definition set_arena :: "lib \<Rightarrow> bytes \<Rightarrow> lobby \<Rightarrow> lobby" where
  "set_arena lb name l =
     snd (setstat lb ''arena'' (Some (SString name)) (snd (remstat lb ''arena'' (l\<lparr>l_arena := name\<rparr>))))"

text \<open>The bookkeeping common to a player who came and one who left: bots mark the lobby as changed,
  players are counted.\<close>

definition note_player :: "lib \<Rightarrow> int \<Rightarrow> nat \<Rightarrow> lobby \<Rightarrow> lobby" where
  "note_player lb i players l =
     (if i \<noteq> -1 then
        if i < 1000 then l\<lparr>l_changed := True\<rparr>
        else if players \<noteq> 0 then snd (setstat lb ''players'' (Some (SInt (int players))) l)
        else l
      else l)"

definition cancel_unknown :: "lib \<Rightarrow> int \<Rightarrow> lobby \<Rightarrow> lobby" where
  "cancel_unknown lb i l = (if i = -1 then cancel lb ErrLobbyBug l else l)"

definition registered :: "lib \<Rightarrow> bytes \<Rightarrow> lobby \<Rightarrow> lobby" where
  "registered lb sid l =
     (case Add sid (l_players l) of
        None \<Rightarrow> l\<lparr>l_panic := True\<rparr>
      | Some ((i, _, _, admin), p) \<Rightarrow>
          let players = fst (Count p);
              l = note_player lb i players (l\<lparr>l_players := p\<rparr>);
              l = (if players = 1 then collect lb (snd (remstat lb ''idle'' l))
                   else if players = 10 then snd (newstat lb ''full'' l)
                   else l)
          in cancel_unknown lb i l)"

definition lobby_emptied :: "lib \<Rightarrow> lobby \<Rightarrow> lobby" where
  "lobby_emptied lb l =
     (let l = collect lb (snd (remstat lb ''players'' l)) in
      if \<not> l_changed l \<or> MaxFails (l_opts l) = 0 then snd (newstat lb ''idle'' l)
      else case ReasonAfter (Some (l_spec l)) (l_t1 l) 0 0 of
        (force, Some err) \<Rightarrow> cancel lb err l
      | (force, None) \<Rightarrow> cancel lb ErrLobbyIdleTimeout l)"

definition unregistered :: "lib \<Rightarrow> bytes \<Rightarrow> lobby \<Rightarrow> lobby" where
  "unregistered lb sid l =
     (case Remove sid (l_players l) of
        ((i, _, _, admin), p) \<Rightarrow>
          let players = fst (Count p);
              l = note_player lb i players (l\<lparr>l_players := p\<rparr>);
              l = (if admin \<and> MatchID (l_m l) = '''' then collect lb l else l);
              l = (if players = 0 then lobby_emptied lb l
                   else if players = 9 then snd (remstat lb ''full'' l)
                   else l)
          in cancel_unknown lb i l)"

definition mark_changed :: "lobby \<Rightarrow> lobby" where
  "mark_changed l = (if fst (Count (l_players l)) \<noteq> 0 then l\<lparr>l_changed := True\<rparr> else l)"

definition filterbolt :: "lib \<Rightarrow> bytes \<Rightarrow> lobby \<Rightarrow> (bytes \<times> goerror option) \<times> lobby" where
  "filterbolt lb bs l =
     ((bs, None),
      if length bs \<noteq> length loadingArenaName \<and> HasPrefix bs loadingArenaName then
        set_arena lb (drop (length loadingArenaName) bs) l
      else if HasPrefix bs playerAssigned \<or> HasPrefix bs remoteCallbacks then snd (remstat lb ''idle'' l)
      else if length bs \<noteq> length registeredPlayer \<and> HasPrefix bs registeredPlayer then
        registered lb (drop (length registeredPlayer) bs) l
      else if length bs \<noteq> length unregisteredPlayer \<and> HasPrefix bs unregisteredPlayer then
        unregistered lb (drop (length unregisteredPlayer) bs) l
      else if HasPrefix bs arenaSpecNameChanged then mark_changed l
      else if HasPrefix bs ballsPerSecondChanged then mark_changed l
      else l)"

section \<open>The filter\<close>

definition bolt where "bolt = ''-- BOLT -- ''"
definition upload where "upload = ''Upload complete''"
definition ppool where "ppool = ''Finished populating pool''"
definition arena where "arena = ''Received request for ArenaSpecName ''"
definition nosess where "nosess = ''Failed to create session''"
definition disco where "disco = ''Disconnected''"

lemmas filter_defs = bolt_def upload_def ppool_def arena_def nosess_def disco_def

definition ignored :: "bytes list \<Rightarrow> bytes list \<Rightarrow> bytes \<Rightarrow> bool" where
  "ignored prefixes contains sample \<longleftrightarrow>
     sample = '''' \<or> list_ex (HasPrefix sample) prefixes \<or> list_ex (Contains sample) contains"

definition act_on_line :: "lib \<Rightarrow> bytes \<Rightarrow> lobby \<Rightarrow> (bytes \<times> goerror option) \<times> lobby" where
  "act_on_line lb bs l =
     (if hd bs = CHR ''{'' \<and> last bs = CHR ''}'' then filterjson lb bs l
      else if HasPrefix bs bolt then filterbolt lb bs l
      else ((bs, None),
        if HasPrefix bs upload then collect lb l
        else if HasPrefix bs ppool then
          (if fst (Count (l_players l)) = 0 then snd (newstat lb ''idle'' l) else l)
        else if length bs \<noteq> length arena \<and> HasPrefix bs arena then set_arena lb (drop (length arena) bs) l
        else if HasPrefix bs nosess \<or> HasPrefix bs disco then cancel lb ErrLobbyDisconnected l
        else l))"

definition lfilter :: "lib \<Rightarrow> nat \<Rightarrow> bytes \<Rightarrow> lobby \<Rightarrow> (bytes \<times> goerror option) \<times> lobby" where
  "lfilter lb fd bs l =
     (if fd = 1 then
        if ignored stdoutIgnorePrefixes [] (TrimSpace bs) then (('''', None), l) else act_on_line lb bs l
      else if fd = 2 then
        if ignored stderrIgnorePrefixes stderrIgnoreContains (TrimSpace bs) then (('''', None), l)
        else ((bs, None), l)
      else ((bs, None), l))"

section \<open>The scanner\<close>

abbreviation (input) "pipesz \<equiv> 1048576 :: nat"

definition dropCR :: "bytes \<Rightarrow> bytes" where
  "dropCR s = (if s \<noteq> [] \<and> last s = CHR 0x0D then butlast s else s)"

text \<open>The lines of an input under a buffer of \<open>cap\<close> bytes, and whether a line did not fit, which
  stops the scanner.\<close>

function scan_lines :: "nat \<Rightarrow> bytes \<Rightarrow> bytes list \<times> bool" where
  "scan_lines cap s =
     (if s = [] then ([], False)
      else
        let line = takeWhile (\<lambda>c. c \<noteq> CHR 0x0A) s in
        if length line < length s \<and> length line < cap then
          (case scan_lines cap (drop (Suc (length line)) s) of (ls, e) \<Rightarrow> (dropCR line # ls, e))
        else if cap \<le> length s then ([], True)
        else ([dropCR s], False))"
  by pat_completeness auto
termination
  by (relation "measure (\<lambda>(cap, s). length s)") auto

declare scan_lines.simps [simp del]

definition scan_line :: "lib \<Rightarrow> nat \<Rightarrow> bytes \<Rightarrow> lobby \<Rightarrow> lobby" where
  "scan_line lb fd line l =
     (case lfilter lb fd line l of
        ((bs, err), l) \<Rightarrow>
          if err \<noteq> None then l
          else if length bs = 0 then l
          else l\<lparr>l_out := l_out l @ [(fd, bs)]\<rparr>)"

definition close_matches :: "lobby \<Rightarrow> lobby" where
  "close_matches l =
     (if l_matches_chan l = OpenChan then l\<lparr>l_matches_chan := ClosedChan\<rparr> else l\<lparr>l_panic := True\<rparr>)"

definition scanner_end :: "lib \<Rightarrow> nat \<Rightarrow> lobby \<Rightarrow> lobby" where
  "scanner_end lb fd l = cancel lb ErrLobbyDone (if fd = 1 then close_matches (collect lb l) else l)"

definition scanner :: "lib \<Rightarrow> nat \<Rightarrow> bytes \<Rightarrow> lobby \<Rightarrow> lobby" where
  "scanner lb fd input l =
     (if fd = 1 \<or> fd = 2 then scanner_end lb fd (fold (scan_line lb fd) (fst (scan_lines pipesz input)) l)
      else cancel lb ErrLobbyDone l)"

end
