(* ===== verification/LobbyInv.thy ===== *)
theory LobbyInv
  imports LobbyScan
begin

text \<open>
  What every handler of a lobby keeps, whatever it is handed: \<open>lobby_ok\<close>, the channels agree with
  the reason, the roster is well formed and the queue holds at most ten matches worth keeping;
  and \<open>legal\<close>, what may change at all: a real reason stays, output and signals are only added to,
  and the session, the options, the process and the start time are not touched. The locale
  \<open>handler\<close> is that contract; it is interpreted for the scanner's two streams and the collector,
  and the lemmas on runs of a handler are proved once in it. The locale \<open>lobby_relation\<close> carries a
  relation from the operations to the handlers of the scanner, whatever the relation says.
\<close>

definition queue_ok :: "gmatch list \<Rightarrow> bool" where
  "queue_ok ms \<longleftrightarrow> length ms \<le> queue_cap \<and> (\<forall>m \<in> set ms. MatchID m \<noteq> '''' \<and> KillData m \<noteq> [])"

definition lobby_ok :: "lobby \<Rightarrow> bool" where
  "lobby_ok l \<longleftrightarrow> cancel_ok l \<and> players_ok (l_players l) \<and> queue_ok (l_matches l)"

definition legal :: "lobby \<Rightarrow> lobby \<Rightarrow> bool" where
  "legal l l' \<longleftrightarrow> reason_step (l_reason l) (l_reason l')
     \<and> l_session l' = l_session l \<and> l_opts l' = l_opts l \<and> l_spec l' = l_spec l
     \<and> l_proc l' = l_proc l \<and> l_t1 l' = l_t1 l \<and> l_t2 l' = l_t2 l \<and> l_clock l' = l_clock l
     \<and> l_matches_chan l' = l_matches_chan l
     \<and> l_reads l \<le> l_reads l' \<and> (\<exists>xs. l_out l' = l_out l @ xs) \<and> (\<exists>xs. l_sent l' = l_sent l @ xs)
     \<and> (l_changed l \<longrightarrow> l_changed l') \<and> (l_done l' = NilChan \<longleftrightarrow> l_done l = NilChan)"

lemma legal_refl [simp]: "legal l l"
  by (simp add: legal_def)

lemma legal_trans [trans]: "legal a b \<Longrightarrow> legal b c \<Longrightarrow> legal a c"
  by (auto simp: legal_def dest: reason_step_trans)

section \<open>The contract of a handler\<close>

locale handler =
  fixes step :: "'i \<Rightarrow> lobby \<Rightarrow> lobby" and ready :: "lobby \<Rightarrow> bool"
  assumes step_ok: "lobby_ok l \<Longrightarrow> ready l \<Longrightarrow> lobby_ok (step i l)"
    and step_legal: "lobby_ok l \<Longrightarrow> ready l \<Longrightarrow> legal l (step i l)"
    and ready_chan: "legal l l' \<Longrightarrow> ready l \<Longrightarrow> ready l'"
begin

lemma run_ok:
  "lobby_ok l \<Longrightarrow> ready l \<Longrightarrow> lobby_ok (fold step is l) \<and> legal l (fold step is l) \<and> ready (fold step is l)"
proof (induction "is" arbitrary: l)
  case (Cons i "is")
  have "lobby_ok (step i l)" "legal l (step i l)" using Cons.prems by (simp_all add: step_ok step_legal)
  moreover from this(2) have "ready (step i l)" using Cons.prems(2) by (rule ready_chan)
  ultimately show ?case using Cons.IH [of "step i l"] by (auto intro: legal_trans)
qed simp

text \<open>A run does not panic, keeps a real reason it found, and closes the done channel only with one.\<close>

lemma run_reason:
  "lobby_ok l \<Longrightarrow> ready l \<Longrightarrow> settled (l_reason l) = 2 \<Longrightarrow> l_reason (fold step is l) = l_reason l"
  using run_ok [of l "is"] settled_Some(3) [of "l_reason (fold step is l)"]
  by (auto simp: legal_def reason_step_def)

lemma run_no_panic: "lobby_ok l \<Longrightarrow> ready l \<Longrightarrow> \<not> l_panic (fold step is l)"
  using run_ok [of l "is"] by (simp add: lobby_ok_def cancel_ok_def)

end

section \<open>The operations the handlers are made of\<close>

lemma ok_cong:
  "l_panic l' = l_panic l \<Longrightarrow> l_done l' = l_done l \<Longrightarrow> l_reason l' = l_reason l \<Longrightarrow> l_players l' = l_players l
   \<Longrightarrow> l_matches l' = l_matches l \<Longrightarrow> lobby_ok l' = lobby_ok l"
  by (simp add: lobby_ok_def cancel_ok_def)

lemma stat_ok [inv_rules]:
  "lobby_ok (snd (setstat lb n v l)) = lobby_ok l" "lobby_ok (snd (newstat lb n l)) = lobby_ok l"
  "lobby_ok (snd (remstat lb n l)) = lobby_ok l"
  by (rule ok_cong; simp)+

lemma stat_legal [inv_rules]:
  "legal l (snd (setstat lb n v l))" "legal l (snd (remstat lb n l))" "legal l (snd (newstat lb n l))"
proof -
  show "legal l (snd (setstat lb n v l))" "legal l (snd (remstat lb n l))" by (simp_all add: legal_def)
  have "l_reads l \<le> l_reads (snd (newstat lb n l))" by (simp add: newstat_def time_now_def)
  then show "legal l (snd (newstat lb n l))" by (simp add: legal_def)
qed

lemma cancel_inv [inv_rules]: "lobby_ok l \<Longrightarrow> lobby_ok (snd (Cancel lb r l))" "legal l (snd (Cancel lb r l))"
proof -
  show "lobby_ok l \<Longrightarrow> lobby_ok (snd (Cancel lb r l))" by (simp add: lobby_ok_def Cancel_ok)
  have "\<exists>xs. l_sent (snd (Cancel lb r l)) = l_sent l @ xs"
    by (auto simp: Cancel_def Let_def stop_process_def close_done_def split: option.split proc.split)
  then show "legal l (snd (Cancel lb r l))" by (simp add: legal_def)
qed

lemma collect_inv [inv_rules]:
  "lobby_ok l \<Longrightarrow> l_matches_chan l = OpenChan \<Longrightarrow> lobby_ok (collect lb l)" "legal l (collect lb l)"
proof -
  show "legal l (collect lb l)" by (simp add: legal_def)
  assume l: "lobby_ok l" "l_matches_chan l = OpenChan"
  then have "queue_ok (l_matches (collect lb l))"
    by (auto simp: collect_matches lobby_ok_def queue_ok_def)
  with l show "lobby_ok (collect lb l)" by (simp add: lobby_ok_def cancel_ok_def collect_panic)
qed

lemma update_inv [inv_rules]:
  "lobby_ok (l\<lparr>l_m := m\<rparr>) = lobby_ok l" "legal l (l\<lparr>l_m := m\<rparr>)"
  "lobby_ok (l\<lparr>l_arena := a\<rparr>) = lobby_ok l" "legal l (l\<lparr>l_arena := a\<rparr>)"
  "lobby_ok (l\<lparr>l_changed := True\<rparr>) = lobby_ok l" "legal l (l\<lparr>l_changed := True\<rparr>)"
  "lobby_ok l \<Longrightarrow> players_ok p \<Longrightarrow> lobby_ok (l\<lparr>l_players := p\<rparr>)" "legal l (l\<lparr>l_players := p\<rparr>)"
  "lobby_ok (l\<lparr>l_disk := d\<rparr>) = lobby_ok l" "legal l (l\<lparr>l_disk := d\<rparr>)"
  "lobby_ok (l\<lparr>l_out := l_out l @ xs\<rparr>) = lobby_ok l" "legal l (l\<lparr>l_out := l_out l @ xs\<rparr>)"
  by (simp_all add: legal_def lobby_ok_def cancel_ok_def)

section \<open>What holds of the operations holds of the handlers\<close>

text \<open>The handlers of the scanner are composed of these operations alone, so a relation that is closed
  under composition and holds of each operation holds of the handlers.\<close>

locale lobby_relation =
  fixes R :: "lobby \<Rightarrow> lobby \<Rightarrow> bool"
  assumes R_refl: "R l l"
    and R_trans: "R a b \<Longrightarrow> R b c \<Longrightarrow> R a c"
    and R_setstat: "stat_name n \<Longrightarrow> R l (snd (setstat lb n v l))"
    and R_newstat: "stat_name n \<Longrightarrow> R l (snd (newstat lb n l))"
    and R_Cancel: "R l (snd (Cancel lb r l))"
    and R_collect: "R l (collect lb l)"
    and R_m: "R l (l\<lparr>l_m := m\<rparr>)"
    and R_arena: "R l (l\<lparr>l_arena := name\<rparr>)"
    and R_changed: "R l (l\<lparr>l_changed := True\<rparr>)"
    and R_players: "players_ok p \<Longrightarrow> R l (l\<lparr>l_players := p\<rparr>)"
    and R_out: "R l (l\<lparr>l_out := l_out l @ xs\<rparr>)"
begin

lemma R_remstat: "stat_name n \<Longrightarrow> R l (snd (remstat lb n l))"
  by (simp add: remstat_def R_setstat)

lemma R_if: "R l a \<Longrightarrow> R l b \<Longrightarrow> R l (if c then a else b)"
  by simp

lemma R_start_match: "R l (match_started lb l)"
  by (simp add: match_started_def R_newstat)

lemma R_set_match: "R l (set_match lb m l)"
proof -
  let ?l1 = "if MatchID m \<noteq> MatchID (l_m l) then collect lb l else l"
  have 1: "R l ?l1" by (simp add: R_collect R_refl)
  have 2: "R l (match_started lb (?l1\<lparr>l_m := x\<rparr>))" for x
    by (rule R_trans [OF R_trans [OF 1 R_m] R_start_match])
  have 3: "R l (match_started lb (?l1\<lparr>l_m := x, l_m := y\<rparr>))" for x y
    using 2 [of y] by simp
  show ?thesis using 2 3 unfolding set_match_def Let_def by (auto split: option.split)
qed

lemma R_filterjson: "R l (snd (filterjson lb bs l))"
  by (auto simp: filterjson_def R_refl R_m R_set_match split: option.split)

lemma R_set_arena: "R l (set_arena lb a l)"
  unfolding set_arena_def
  by (rule R_trans [OF R_trans [OF R_arena R_remstat] R_setstat]) simp_all

lemma R_note_player: "R l (note_player lb i n l)"
  by (simp add: note_player_def R_refl R_changed R_setstat)

lemma R_cancel_unknown: "R l (cancel_unknown lb i l)"
  by (simp add: cancel_unknown_def R_refl R_Cancel)

lemma R_registered:
  assumes "players_ok (l_players l)"
  shows "R l (registered lb sid l)"
proof -
  obtain r p where a: "Add sid (l_players l) = Some (r, p)" and p: "players_ok p"
    using Add_ok [OF assms] by blast
  obtain i n u adm where r: "r = (i, n, u, adm)" by (cases r)
  let ?l1 = "note_player lb i (fst (Count p)) (l\<lparr>l_players := p\<rparr>)"
  have 1: "R l ?l1" using p by (rule R_trans [OF R_players R_note_player])
  have 2: "R ?l1 (if fst (Count p) = 1 then collect lb (snd (remstat lb ''idle'' ?l1))
      else if fst (Count p) = 10 then snd (newstat lb ''full'' ?l1) else ?l1)"
    by (intro R_if R_refl R_newstat R_trans [OF R_remstat R_collect]) simp_all
  show ?thesis
    using R_trans [OF R_trans [OF 1 2] R_cancel_unknown]
    by (simp add: registered_def a r Let_def)
qed

lemma R_lobby_emptied: "R l (lobby_emptied lb l)"
proof -
  have 1: "R l (collect lb (snd (remstat lb ''players'' l)))" by (rule R_trans [OF R_remstat R_collect]) simp
  show ?thesis
    using R_trans [OF 1 R_newstat] R_trans [OF 1 R_Cancel]
    unfolding lobby_emptied_def Let_def by (auto split: prod.split option.split)
qed

lemma R_unregistered:
  assumes "players_ok (l_players l)"
  shows "R l (unregistered lb sid l)"
proof -
  obtain i n u adm p where r: "Remove sid (l_players l) = ((i, n, u, adm), p)" by (metis prod_cases4 surj_pair)
  have p: "players_ok p" using RemoveD(1) [OF assms, of sid] r by simp
  let ?l1 = "note_player lb i (fst (Count p)) (l\<lparr>l_players := p\<rparr>)"
  let ?l2 = "if adm \<and> MatchID (l_m ?l1) = '''' then collect lb ?l1 else ?l1"
  have 1: "R l ?l1" using p by (rule R_trans [OF R_players R_note_player])
  have 2: "R ?l1 ?l2" by (simp add: R_collect R_refl)
  have 3: "R ?l2 (if fst (Count p) = 0 then lobby_emptied lb ?l2
      else if fst (Count p) = 9 then snd (remstat lb ''full'' ?l2) else ?l2)"
    by (intro R_if R_refl R_remstat R_lobby_emptied) simp
  show ?thesis
    using R_trans [OF R_trans [OF R_trans [OF 1 2] 3] R_cancel_unknown]
    by (simp add: unregistered_def r Let_def)
qed

lemma R_mark_changed: "R l (mark_changed l)"
  by (simp add: mark_changed_def R_refl R_changed)

lemma R_filterbolt: "players_ok (l_players l) \<Longrightarrow> R l (snd (filterbolt lb bs l))"
  unfolding filterbolt_def snd_conv
  by (intro R_if R_refl R_remstat R_set_arena R_registered R_unregistered R_mark_changed) simp_all

lemma R_act_on_line: "players_ok (l_players l) \<Longrightarrow> R l (snd (act_on_line lb bs l))"
  unfolding act_on_line_def if_distrib [of snd] snd_conv
  by (intro R_if R_refl R_newstat R_collect R_Cancel R_filterjson R_filterbolt R_set_arena) simp_all

lemma R_scan_line: "players_ok (l_players l) \<Longrightarrow> R l (scan_line lb fd line l)"
proof -
  assume "players_ok (l_players l)"
  then have f: "R l (snd (lfilter lb fd line l))"
    unfolding lfilter_def if_distrib [of snd] snd_conv
    by (intro R_if R_refl R_act_on_line)
  show ?thesis
    unfolding scan_line_def using f R_trans [OF f R_out] by (auto split: prod.split)
qed

end

section \<open>The handlers\<close>

text \<open>\<open>good l l'\<close>: the lobby was taken from \<open>l\<close> to \<open>l'\<close> and the contract was kept.\<close>

definition good :: "lobby \<Rightarrow> lobby \<Rightarrow> bool" where
  "good l l' \<longleftrightarrow> (lobby_ok l \<and> l_matches_chan l = OpenChan \<longrightarrow> lobby_ok l') \<and> legal l l'"

interpretation good_lobby: lobby_relation good
proof
  fix a b c :: lobby
  show "good a b \<Longrightarrow> good b c \<Longrightarrow> good a c" by (auto simp: good_def intro: legal_trans) (simp add: legal_def)
qed (simp_all add: good_def inv_rules)

interpretation scan_handler: handler "scan_line lb fd" "\<lambda>l. l_matches_chan l = OpenChan" for lb fd
proof
  fix l l' line
  show "lobby_ok l \<Longrightarrow> l_matches_chan l = OpenChan \<Longrightarrow> lobby_ok (scan_line lb fd line l)"
    using good_lobby.R_scan_line [of l lb fd line] by (simp add: good_def lobby_ok_def)
  show "lobby_ok l \<Longrightarrow> l_matches_chan l = OpenChan \<Longrightarrow> legal l (scan_line lb fd line l)"
    using good_lobby.R_scan_line [of l lb fd line] by (simp add: good_def lobby_ok_def)
  show "legal l l' \<Longrightarrow> l_matches_chan l = OpenChan \<Longrightarrow> l_matches_chan l' = OpenChan"
    by (simp add: legal_def)
qed

lemma collector_step_inv:
  "lobby_ok l \<Longrightarrow> lobby_ok (collector_step lb m l)" "legal l (collector_step lb m l)"
proof -
  have w: "lobby_ok l \<Longrightarrow> lobby_ok (write_or_cancel lb m sm f l)" "legal l (write_or_cancel lb m sm f l)" for m sm f l
    by (auto simp: write_or_cancel_def Let_def inv_rules split: prod.split intro: legal_trans [OF update_inv(10) cancel_inv(2)])
  show "lobby_ok l \<Longrightarrow> lobby_ok (collector_step lb m l)" by (simp add: collector_step_def Let_def w)
  show "legal l (collector_step lb m l)"
    unfolding collector_step_def Let_def by (rule legal_trans [OF w(2) w(2)])
qed

interpretation collect_handler: handler "collector_step lb" "\<lambda>l. True" for lb
  by unfold_locales (simp_all add: collector_step_inv)

interpretation cancel_handler: handler "\<lambda>r l. snd (Cancel lb r l)" "\<lambda>l. True" for lb
  by unfold_locales (simp_all add: cancel_inv)

end
