(* ===== verification/LobbyMirror.thy ===== *)
theory LobbyMirror
  imports LobbyInv
begin

text \<open>
  What the lines of the game mean, and what the lobby shows of it. \<open>line_msg\<close> reads a line of
  standard output as a message to the roster; the players the lobby holds after any output are
  those the roster holds after the messages in it. The status files \<open>players\<close> and \<open>full\<close> mirror
  that roster.
\<close>

definition line_msg :: "bytes \<Rightarrow> roster_msg option" where
  "line_msg bs =
     (if HasPrefix bs registeredPlayer \<and> bs \<noteq> registeredPlayer then
        Some (Arrive (drop (length registeredPlayer) bs))
      else if HasPrefix bs unregisteredPlayer \<and> bs \<noteq> unregisteredPlayer then
        Some (Leave (drop (length unregisteredPlayer) bs))
      else None)"

section \<open>The roster after a line\<close>

lemma players_note [simp]: "l_players (note_player lb i n l) = l_players l"
  by (simp add: note_player_def)

lemma players_cancel_unknown [simp]: "l_players (cancel_unknown lb i l) = l_players l"
  by (simp add: cancel_unknown_def)

lemma players_set_arena [simp]: "l_players (set_arena lb a l) = l_players l"
  by (simp add: set_arena_def)

lemma players_filterjson [simp]: "l_players (snd (filterjson lb bs l)) = l_players l"
  by (simp add: filterjson_def set_match_def match_started_def Let_def split: option.split)

lemma players_emptied [simp]: "l_players (lobby_emptied lb l) = l_players l"
  by (simp add: lobby_emptied_def Let_def split: prod.split option.split)

lemma players_mark [simp]: "l_players (mark_changed l) = l_players l"
  by (simp add: mark_changed_def)

lemma players_registered: "Add sid (l_players l) = Some (r, p) \<Longrightarrow> l_players (registered lb sid l) = p"
  by (cases r) (simp add: registered_def Let_def)

lemma players_unregistered: "l_players (unregistered lb sid l) = snd (Remove sid (l_players l))"
  by (simp add: unregistered_def Let_def split: prod.split)

text \<open>A line that starts with a printable ASCII character still does when it has been trimmed.\<close>

abbreviation printable :: "char \<Rightarrow> bool" where
  "printable c \<equiv> (0x20 :: nat) < of_char c \<and> (of_char c :: nat) < 0x80"

lemma TrimLeftSpace_printable: "printable c \<Longrightarrow> TrimLeftSpace (c # s) = c # s"
  using lead_space_ascii [of c s] by (simp add: TrimLeftSpace.simps [of "c # s"])

lemma trail_space_printable:
  assumes c: "printable c" and t: "trail_space (c # s) = Some r"
  shows "length r \<le> length s"
proof -
  from t have "r \<in> set space_runes" and h: "HasSuffix (c # s) r"
    by (auto simp: trail_space_def find_Some_iff)
  then obtain t where t: "c # s = t @ r" by (auto simp: HasSuffix_iff)
  have "t \<noteq> []"
  proof
    assume "t = []"
    with t \<open>r \<in> set space_runes\<close> have "c # s \<in> set space_runes" by simp
    moreover have "HasPrefix (c # s) (c # s)" using HasPrefix_append [of _ "[]"] by simp
    ultimately have "lead_space (c # s) \<noteq> None" unfolding lead_space_def find_None_iff by blast
    with c show False by (simp add: lead_space_ascii)
  qed
  with t show ?thesis by (metis Suc_le_mono add_Suc le_add2 length_Cons length_append list.exhaust)
qed

lemma TrimRightSpace_printable: "printable c \<Longrightarrow> \<exists>t. TrimRightSpace (c # s) = c # t"
proof (induction "length s" arbitrary: s rule: less_induct)
  case less
  show ?case
  proof (cases "trail_space (c # s)")
    case None
    then show ?thesis by (simp add: TrimRightSpace.simps [of "c # s"])
  next
    case (Some r)
    then have "0 < length r" using space_runes_nonempty by (auto simp: trail_space_def find_Some_iff)
    moreover note trail_space_printable [OF less.prems Some]
    ultimately have "take (Suc (length s) - length r) (c # s) = c # take (length s - length r) s"
      and "length (take (length s - length r) s) < length s"
      using \<open>0 < length r\<close> by (simp_all add: Suc_diff_le del: length_greater_0_conv)
    with less.hyps [of "take (length s - length r) s"] less.prems Some show ?thesis
      by (simp add: TrimRightSpace.simps [of "c # s"])
  qed
qed

lemma not_ignored:
  assumes "printable c" and "bs = c # s" and "\<forall>p \<in> set ps. \<not> HasPrefix bs p"
  shows "\<not> ignored ps [] (TrimSpace bs)"
proof -
  have ts: "TrimSpace bs = TrimRightSpace bs" using assms(1,2) by (simp add: TrimSpace_def TrimLeftSpace_printable)
  then have ne: "TrimSpace bs \<noteq> []" using TrimRightSpace_printable [OF assms(1), of s] assms(2) by auto
  obtain v where v: "bs = TrimSpace bs @ v" using TrimRightSpace_prefix ts by metis
  have "HasPrefix bs p" if "HasPrefix (TrimSpace bs) p" for p
    using that v by (metis HasPrefix_iff append.assoc)
  with ne assms(3) show ?thesis by (auto simp: ignored_def list_ex_iff)
qed

text \<open>The lines that register and unregister are never ignored.\<close>

lemma bolt_not_ignored:
  assumes "HasPrefix bs ''-- BOLT -- Registered player: '' \<or> HasPrefix bs ''-- BOLT -- Unregistered player: ''"
  shows "\<not> ignored stdoutIgnorePrefixes [] (TrimSpace bs)"
proof -
  from assms obtain s where "bs = CHR ''-'' # s" by (auto simp: HasPrefix_iff)
  moreover have "\<forall>p \<in> set stdoutIgnorePrefixes. \<not> HasPrefix bs p"
    using assms by (auto simp: stdoutIgnorePrefixes_def HasPrefix_iff)
  ultimately show ?thesis by (intro not_ignored [of "CHR ''-''"]) simp_all
qed

lemma players_scan_line:
  assumes "players_ok (l_players l)"
  shows "Some (l_players (scan_line lb 1 line l)) =
    (case line_msg line of None \<Rightarrow> Some (l_players l) | Some msg \<Rightarrow> msg_step msg (l_players l))"
proof -
  have sl: "l_players (scan_line lb 1 line l) = l_players (snd (lfilter lb 1 line l))"
    by (simp add: scan_line_def split: prod.split)
  obtain r p where add: "Add (drop (length registeredPlayer) line) (l_players l) = Some (r, p)"
    using Add_ok [OF assms] by blast
  consider (reg) "HasPrefix line registeredPlayer" "line \<noteq> registeredPlayer"
    | (unreg) "HasPrefix line unregisteredPlayer" "line \<noteq> unregisteredPlayer"
    | (other) "\<not> (HasPrefix line registeredPlayer \<and> line \<noteq> registeredPlayer)"
        "\<not> (HasPrefix line unregisteredPlayer \<and> line \<noteq> unregisteredPlayer)" by blast
  then show ?thesis
  proof cases
    case reg
    then have "\<not> ignored stdoutIgnorePrefixes [] (TrimSpace line)" using bolt_not_ignored by (simp add: bolt_defs)
    moreover have "l_players (snd (filterbolt lb line l)) = p" "hd line \<noteq> CHR ''{''" "HasPrefix line bolt"
      using reg add players_registered [OF add] by (auto simp: filterbolt_def bolt_defs bolt_def HasPrefix_iff)
    ultimately show ?thesis using reg add sl by (simp add: lfilter_def act_on_line_def line_msg_def)
  next
    case unreg
    then have "\<not> ignored stdoutIgnorePrefixes [] (TrimSpace line)" using bolt_not_ignored by (simp add: bolt_defs)
    moreover have "l_players (snd (filterbolt lb line l)) = snd (Remove (drop (length unregisteredPlayer) line) (l_players l))"
      "hd line \<noteq> CHR ''{''" "HasPrefix line bolt" "\<not> HasPrefix line registeredPlayer"
      using unreg players_unregistered by (auto simp: filterbolt_def bolt_defs bolt_def HasPrefix_iff)
    ultimately show ?thesis using unreg sl by (simp add: lfilter_def act_on_line_def line_msg_def)
  next
    case other
    then have n: "\<not> (length line \<noteq> length registeredPlayer \<and> HasPrefix line registeredPlayer)"
      "\<not> (length line \<noteq> length unregisteredPlayer \<and> HasPrefix line unregisteredPlayer)"
      by (auto simp: HasPrefix_iff)
    then have "l_players (snd (filterbolt lb line l)) = l_players l"
      by (simp only: filterbolt_def snd_conv n if_False) simp
    then have "l_players (snd (act_on_line lb line l)) = l_players l" by (simp add: act_on_line_def)
    moreover have "line_msg line = None" using other by (auto simp: line_msg_def)
    ultimately show ?thesis using sl by (simp add: lfilter_def)
  qed
qed

lemma players_scan_lines:
  "players_ok (l_players l) \<Longrightarrow>
    play (List.map_filter line_msg lines) (l_players l) = Some (l_players (fold (scan_line lb 1) lines l))"
proof (induction lines arbitrary: l)
  case (Cons line lines)
  note ps = players_scan_line [OF Cons.prems, of lb line]
  have ok: "players_ok (l_players (scan_line lb 1 line l))"
  proof (cases "line_msg line")
    case (Some msg)
    with ps Cons.prems show ?thesis using msg_step_ok [of "l_players l" msg] by auto
  qed (use ps Cons.prems in simp)
  show ?case
  proof (cases "line_msg line")
    case None
    with ps Cons.IH [OF ok] show ?thesis by (simp add: List.map_filter_def)
  next
    case (Some msg)
    with ps have "msg_step msg (l_players l) = Some (l_players (scan_line lb 1 line l))" by simp
    with Some Cons.IH [OF ok] show ?thesis by (simp add: List.map_filter_def)
  qed
qed (simp add: List.map_filter_def)

section \<open>The status files mirror the roster\<close>

text \<open>The surroundings the mirror needs: a status directory on a disk that works, that the pid files
  are not in, and time stamps that can be written.\<close>

definition mirror_env :: "lib \<Rightarrow> lobby \<Rightarrow> bool" where
  "mirror_env lb l \<longleftrightarrow> StatDir (l_opts l) \<noteq> [] \<and> healthy (l_disk l)
     \<and> (\<forall>n. pid_apart l (stat_path l n)) \<and> (\<forall>t. marshal_time lb t \<noteq> None)"

definition mirrors :: "lobby \<Rightarrow> bool" where
  "mirrors l \<longleftrightarrow>
     (let n = card (joined (l_players l)) in
      map_option fl_data (stat_file l ''players'') = (if n = 0 then None else Some (Itoa (int n)))
      \<and> (stat_file l ''full'' \<noteq> None \<longleftrightarrow> 10 \<le> n))"

text \<open>\<open>same l l'\<close>: nothing the mirror looks at has changed.\<close>

definition same :: "lib \<Rightarrow> lobby \<Rightarrow> lobby \<Rightarrow> bool" where
  "same lb l l' \<longleftrightarrow> (mirror_env lb l \<longrightarrow> mirror_env lb l')
     \<and> (mirror_env lb l \<longrightarrow> stat_file l' ''players'' = stat_file l ''players'' \<and> stat_file l' ''full'' = stat_file l ''full'')"

lemma same_refl [simp]: "same lb l l"
  by (simp add: same_def)

lemma same_trans [trans]: "same lb a b \<Longrightarrow> same lb b c \<Longrightarrow> same lb a c"
  by (auto simp: same_def)

lemma same_disk: "l_disk l' = l_disk l \<Longrightarrow> l_opts l' = l_opts l \<Longrightarrow> same lb l l'"
  by (simp add: same_def mirror_env_def stat_file_def stat_path_def pid_apart_def)

lemma env_setstat: "mirror_env lb l \<Longrightarrow> mirror_env lb (snd (setstat lb n v l))"
  by (simp add: mirror_env_def pid_apart_def stat_path_def)

lemma same_setstat: "n \<in> {''idle'', ''arena'', ''match''} \<Longrightarrow> same lb l (snd (setstat lb n v l))"
  using stat_file_other [of l n "''players''" lb v] stat_file_other [of l n "''full''" lb v]
  by (auto simp: same_def env_setstat) (auto simp: mirror_env_def simple_stats [THEN stat_name_simple])

lemma same_remstat: "n \<in> {''idle'', ''arena'', ''match''} \<Longrightarrow> same lb l (snd (remstat lb n l))"
  unfolding remstat_def by (rule same_setstat)

lemma same_newstat: "n \<in> {''idle'', ''arena'', ''match''} \<Longrightarrow> same lb l (snd (newstat lb n l))"
  using same_setstat [of n lb l] same_setstat [of n lb "snd (time_now l)"] same_disk [of "snd (time_now l)" l lb]
  by (auto simp: newstat_def time_now_def intro: same_trans)

lemma same_collect: "same lb l (collect lb l)"
proof (cases "MatchID (l_m l) = ''''")
  case True
  then show ?thesis by (intro same_disk) (simp_all add: collect_disk)
next
  case False
  then have "same lb (snd (remstat lb ''match'' l)) (collect lb l)" by (intro same_disk) (simp_all add: collect_disk)
  with same_remstat [of "''match''" lb l] show ?thesis by (auto intro: same_trans)
qed

lemma same_cancel: "same lb l (snd (Cancel lb' r l))"
  by (rule same_disk) simp_all

lemma same_set_match: "same lb l (set_match lb m l)"
proof -
  let ?l1 = "if MatchID m \<noteq> MatchID (l_m l) then collect lb l else l"
  have 1: "same lb l ?l1" by (simp add: same_collect)
  have 2: "same lb l (match_started lb (?l1\<lparr>l_m := x\<rparr>))" for x
    unfolding match_started_def
    by (rule same_trans [OF same_trans [OF 1 same_disk] same_newstat]) simp_all
  have 3: "same lb l (match_started lb (?l1\<lparr>l_m := x, l_m := y\<rparr>))" for x y
    using 2 [of y] by simp
  show ?thesis using 2 3 unfolding set_match_def Let_def by (auto split: option.split)
qed

lemma same_filterjson: "same lb l (snd (filterjson lb bs l))"
  by (auto simp: filterjson_def same_set_match same_disk split: option.split)

lemma same_set_arena: "same lb l (set_arena lb a l)"
  unfolding set_arena_def
  by (rule same_trans [OF same_trans [OF same_disk same_remstat] same_setstat]) simp_all

lemma mirrors_same: "same lb l l' \<Longrightarrow> mirror_env lb l \<Longrightarrow> l_players l' = l_players l \<Longrightarrow> mirrors l \<Longrightarrow> mirrors l'"
  by (simp add: mirrors_def same_def)

text \<open>What a reader sees: the contents of \<open>players\<close> and whether \<open>full\<close> is there.\<close>

definition displays :: "lib \<Rightarrow> lobby \<Rightarrow> bytes option \<Rightarrow> bool \<Rightarrow> bool" where
  "displays lb l a b \<longleftrightarrow> mirror_env lb l \<and> map_option fl_data (stat_file l ''players'') = a
     \<and> (stat_file l ''full'' \<noteq> None \<longleftrightarrow> b)"

lemma mirrors_displays:
  "mirror_env lb l \<Longrightarrow> mirrors l \<longleftrightarrow> (let n = card (joined (l_players l)) in
     displays lb l (if n = 0 then None else Some (Itoa (int n))) (10 \<le> n))"
  by (simp add: mirrors_def displays_def Let_def)

lemma displays_same: "displays lb l a b \<Longrightarrow> same lb l l' \<Longrightarrow> displays lb l' a b"
  by (simp add: displays_def same_def)

lemma displays_env: "displays lb l a b \<Longrightarrow> mirror_env lb l"
  by (simp add: displays_def)

lemma displays_set_players: "displays lb l a b \<Longrightarrow> displays lb (snd (setstat lb ''players'' (Some (SInt k)) l)) (Some (Itoa k)) b"
  using stat_file_other [of l "''players''" "''full''" lb "Some (SInt k)"]
    stat_file_set [of l "''players''" lb "SInt k" "Itoa k"]
  by (auto simp: displays_def env_setstat stat_bytes_def) (auto simp: mirror_env_def simple_stats [THEN stat_name_simple])

lemma displays_rem_players: "displays lb l a b \<Longrightarrow> displays lb (snd (remstat lb ''players'' l)) None b"
  using stat_file_other [of l "''players''" "''full''" lb None] stat_file_rem [of l "''players''" lb]
  by (auto simp: displays_def remstat_def env_setstat) (auto simp: mirror_env_def simple_stats [THEN stat_name_simple])

lemma displays_rem_full: "displays lb l a b \<Longrightarrow> displays lb (snd (remstat lb ''full'' l)) a False"
  using stat_file_other [of l "''full''" "''players''" lb None] stat_file_rem [of l "''full''" lb]
  by (auto simp: displays_def remstat_def env_setstat) (auto simp: mirror_env_def simple_stats [THEN stat_name_simple])

lemma displays_new_full: "displays lb l a b \<Longrightarrow> displays lb (snd (newstat lb ''full'' l)) a True"
proof -
  let ?l = "snd (time_now l)" and ?t = "fst (time_now l)"
  assume "displays lb l a b"
  then have l: "displays lb ?l a b" by (rule displays_same) (rule same_disk; simp add: time_now_def)
  then obtain bs where "marshal_time lb ?t = Some bs"
    unfolding displays_def mirror_env_def by (metis not_None_eq)
  then have "map_option fl_data (stat_file (snd (setstat lb ''full'' (Some (STime ?t)) ?l)) ''full'') = Some bs"
    using l by (intro stat_file_set) (auto simp: displays_def mirror_env_def stat_bytes_def)
  moreover have "stat_file (snd (setstat lb ''full'' (Some (STime ?t)) ?l)) ''players'' = stat_file ?l ''players''"
    using l by (intro stat_file_other) (auto simp: displays_def mirror_env_def simple_stats [THEN stat_name_simple])
  ultimately have "displays lb (snd (setstat lb ''full'' (Some (STime ?t)) ?l)) a True"
    using l by (auto simp: displays_def env_setstat)
  then show ?thesis by (simp add: newstat_def case_prod_unfold)
qed

lemma same_cancel_unknown: "same lb l (cancel_unknown lb i l)"
  by (simp add: cancel_unknown_def same_cancel)

lemma displays_note:
  "displays lb l a b \<Longrightarrow> displays lb (note_player lb i n l) (if 1000 \<le> i \<and> n \<noteq> 0 then Some (Itoa (int n)) else a) b"
  using displays_set_players [of lb l a b "int n"] displays_same [of lb l a b "l\<lparr>l_changed := True\<rparr>"]
  by (simp add: note_player_def same_disk)

lemma joined_small: "1000 \<le> (i :: int) \<or> i < 1000"
  by linarith

lemma mirrors_registered:
  assumes "mirror_env lb l" and "players_ok (l_players l)" and "mirrors l"
  shows "mirror_env lb (registered lb sid l) \<and> mirrors (registered lb sid l)"
proof -
  obtain r p where a: "Add sid (l_players l) = Some (r, p)" and p: "players_ok p" using Add_ok [OF assms(2)] by blast
  obtain i nm u adm where r: "r = (i, nm, u, adm)" by (cases r)
  define n where "n = card (joined (l_players l))"
  define n' where "n' = card (joined p)"
  have cnt: "fst (Count p) = n'" using Count_joined [OF p] by (simp add: n'_def)
  have mem: "joined p = (if 1000 \<le> i then insert i (joined (l_players l)) else joined (l_players l))"
    using lobby_roster.add_members [OF assms(2) a] r by simp
  then have cases: "i < 1000 \<and> n' = n \<or> 1000 \<le> i \<and> 0 < n' \<and> (n' = n \<or> n' = Suc n)"
    by (auto simp: n_def n'_def card_insert_if card_gt_0_iff)
  let ?l1 = "note_player lb i n' (l\<lparr>l_players := p\<rparr>)"
  let ?a = "if n = 0 then None else Some (Itoa (int n))" and ?a' = "if n' = 0 then None else Some (Itoa (int n'))"
  have "displays lb l ?a (10 \<le> n)" using assms(3) unfolding mirrors_displays [OF assms(1)] n_def Let_def .
  then have "displays lb (l\<lparr>l_players := p\<rparr>) ?a (10 \<le> n)" by (rule displays_same) (simp add: same_disk)
  from displays_note [OF this, of i n'] have 1: "displays lb ?l1 ?a' (10 \<le> n)" using cases by (auto split: if_splits)
  let ?l2 = "if n' = 1 then collect lb (snd (remstat lb ''idle'' ?l1))
    else if n' = 10 then snd (newstat lb ''full'' ?l1) else ?l1"
  have 2: "displays lb ?l2 ?a' (10 \<le> n')"
  proof -
    have "n' \<noteq> 10 \<Longrightarrow> 10 \<le> n' \<longleftrightarrow> 10 \<le> n" using cases by auto
    moreover have "displays lb (collect lb (snd (remstat lb ''idle'' ?l1))) ?a' (10 \<le> n)"
      using 1 same_trans [OF same_remstat [of "''idle''" lb ?l1] same_collect] by (auto intro: displays_same)
    ultimately show ?thesis using 1 displays_new_full [OF 1] by auto
  qed
  have eq: "registered lb sid l = cancel_unknown lb i ?l2" using a r cnt by (simp add: registered_def Let_def)
  have 3: "displays lb (registered lb sid l) ?a' (10 \<le> n')" unfolding eq using 2 same_cancel_unknown by (rule displays_same)
  moreover have "l_players (registered lb sid l) = p" using a by (rule players_registered)
  ultimately show ?thesis using displays_env [OF 3] unfolding mirrors_displays [OF displays_env [OF 3]] n'_def Let_def by (auto split: if_splits)
qed

lemma same_emptied_rest:
  "same lb l (if c then snd (newstat lb ''idle'' l) else case x of (f, Some e) \<Rightarrow> cancel lb e l | (f, None) \<Rightarrow> cancel lb e' l)"
  using same_newstat [of "''idle''" lb l] by (auto simp: same_cancel split: prod.split option.split)

lemma displays_emptied: "displays lb l a b \<Longrightarrow> displays lb (lobby_emptied lb l) None b"
  using displays_same [OF displays_same [OF displays_rem_players same_collect] same_emptied_rest]
  unfolding lobby_emptied_def Let_def by blast

lemma mirrors_unregistered:
  assumes "mirror_env lb l" and "players_ok (l_players l)" and "mirrors l"
  shows "mirror_env lb (unregistered lb sid l) \<and> mirrors (unregistered lb sid l)"
proof -
  obtain i nm u adm p where r: "Remove sid (l_players l) = ((i, nm, u, adm), p)" by (metis prod_cases4 surj_pair)
  have p: "players_ok p" using RemoveD(1) [OF assms(2), of sid] r by simp
  define n where "n = card (joined (l_players l))"
  define n' where "n' = card (joined p)"
  have cnt: "fst (Count p) = n'" using Count_joined [OF p] by (simp add: n'_def)
  have "i < 1000 \<Longrightarrow> n' = n"
    using lobby_roster.remove_members_small [OF assms(2), of sid] r by (simp add: n_def n'_def)
  moreover have "1000 \<le> i \<Longrightarrow> Suc n' = n"
    using lobby_roster.remove_reply_player [OF assms(2), of sid] lobby_roster.remove_members [OF assms(2), of sid] r
      card_Suc_Diff1 [of "joined (l_players l)" i] by (simp add: n_def n'_def)
  ultimately have cases: "i < 1000 \<and> n' = n \<or> 1000 \<le> i \<and> Suc n' = n" by linarith
  let ?l1 = "note_player lb i n' (l\<lparr>l_players := p\<rparr>)"
  let ?l2 = "if adm \<and> MatchID (l_m ?l1) = '''' then collect lb ?l1 else ?l1"
  let ?a = "if n = 0 then None else Some (Itoa (int n))" and ?a' = "if n' = 0 then None else Some (Itoa (int n'))"
  have "displays lb l ?a (10 \<le> n)" using assms(3) unfolding mirrors_displays [OF assms(1)] n_def Let_def .
  then have "displays lb (l\<lparr>l_players := p\<rparr>) ?a (10 \<le> n)" by (rule displays_same) (simp add: same_disk)
  then have 1: "displays lb ?l1 (if 1000 \<le> i \<and> n' \<noteq> 0 then Some (Itoa (int n')) else ?a) (10 \<le> n)" by (rule displays_note)
  have "n' \<noteq> 0 \<Longrightarrow> (if 1000 \<le> i \<and> n' \<noteq> 0 then Some (Itoa (int n')) else ?a) = ?a'" using cases by auto
  moreover have "displays lb ?l2 (if 1000 \<le> i \<and> n' \<noteq> 0 then Some (Itoa (int n')) else ?a) (10 \<le> n)"
    by (rule displays_same [OF 1]) (simp add: same_collect)
  ultimately obtain a where a: "displays lb ?l2 a (10 \<le> n)" "n' \<noteq> 0 \<Longrightarrow> a = ?a'" by (rule that [rotated])
  let ?l3 = "if n' = 0 then lobby_emptied lb ?l2 else if n' = 9 then snd (remstat lb ''full'' ?l2) else ?l2"
  have 3: "displays lb ?l3 ?a' (10 \<le> n')"
  proof -
    have "n' \<noteq> 9 \<Longrightarrow> 10 \<le> n' \<longleftrightarrow> 10 \<le> n" using cases by auto
    then show ?thesis using a displays_emptied [OF a(1)] displays_rem_full [OF a(1)] by auto
  qed
  have eq: "unregistered lb sid l = cancel_unknown lb i ?l3" using r cnt by (simp add: unregistered_def Let_def)
  have 4: "displays lb (unregistered lb sid l) ?a' (10 \<le> n')" unfolding eq using 3 same_cancel_unknown by (rule displays_same)
  moreover have "l_players (unregistered lb sid l) = p" using r players_unregistered by simp
  ultimately show ?thesis using displays_env [OF 4] unfolding mirrors_displays [OF displays_env [OF 4]] n'_def Let_def by (auto split: if_splits)
qed

lemma mirror_mark: "same lb l (mark_changed l)"
  by (simp add: mark_changed_def same_disk)

lemma mirror_filterbolt:
  assumes "mirror_env lb l" and "players_ok (l_players l)" and "mirrors l"
  shows "mirror_env lb (snd (filterbolt lb bs l)) \<and> mirrors (snd (filterbolt lb bs l))"
proof -
  have s: "mirror_env lb l' \<and> mirrors l'" if "same lb l l'" "l_players l' = l_players l" for l'
    using that assms mirrors_same by (auto simp: same_def)
  show ?thesis
    unfolding filterbolt_def snd_conv
    using s [OF same_set_arena] s [OF same_remstat [of "''idle''"]] s [OF mirror_mark] s [OF same_refl]
      mirrors_registered [OF assms] mirrors_unregistered [OF assms]
    by simp
qed

lemma mirror_act_on_line:
  assumes "mirror_env lb l" and "players_ok (l_players l)" and "mirrors l"
  shows "mirror_env lb (snd (act_on_line lb bs l)) \<and> mirrors (snd (act_on_line lb bs l))"
proof -
  have s: "mirror_env lb l' \<and> mirrors l'" if "same lb l l'" "l_players l' = l_players l" for l'
    using that assms mirrors_same by (auto simp: same_def)
  show ?thesis
    unfolding act_on_line_def if_distrib [of snd] snd_conv
    using s [OF same_set_arena] s [OF same_newstat [of "''idle''"]] s [OF same_collect] s [OF same_refl]
      s [OF same_cancel] s [OF same_filterjson] mirror_filterbolt [OF assms]
    by simp
qed

lemma mirror_scan_line:
  assumes "mirror_env lb l" and "players_ok (l_players l)" and "mirrors l"
  shows "mirror_env lb (scan_line lb 1 line l) \<and> mirrors (scan_line lb 1 line l)"
proof -
  have "mirror_env lb (snd (lfilter lb 1 line l)) \<and> mirrors (snd (lfilter lb 1 line l))"
    using mirror_act_on_line [OF assms] assms by (simp add: lfilter_def)
  moreover have "mirror_env lb l' \<and> mirrors l' \<Longrightarrow> mirror_env lb (l'\<lparr>l_out := x\<rparr>) \<and> mirrors (l'\<lparr>l_out := x\<rparr>)" for l' x
    using same_disk [of "l'\<lparr>l_out := x\<rparr>" l' lb] mirrors_same [of lb l' "l'\<lparr>l_out := x\<rparr>"] by (simp add: same_def)
  ultimately show ?thesis by (simp add: scan_line_def case_prod_unfold)
qed

lemma players_ok_scan_line: "players_ok (l_players l) \<Longrightarrow> players_ok (l_players (scan_line lb 1 line l))"
  using players_scan_line [of l lb line] msg_step_ok [of "l_players l"]
  by (cases "line_msg line") (auto, metis option.inject)

lemma mirror_scan_lines:
  "mirror_env lb l \<Longrightarrow> players_ok (l_players l) \<Longrightarrow> mirrors l \<Longrightarrow>
    mirror_env lb (fold (scan_line lb 1) lines l) \<and> mirrors (fold (scan_line lb 1) lines l)"
proof (induction lines arbitrary: l)
  case (Cons line lines)
  with mirror_scan_line [OF Cons.prems] players_ok_scan_line [OF Cons.prems(2)] show ?case by simp
qed simp

section \<open>Properties\<close>

text \<open>C9. The players of a lobby are exactly those its game announced: after any output, the roster is
  the one that the registrations and unregistrations in it, read in order, produce. No other line
  changes it, whatever it contains.\<close>

theorem roster_follows_output:
  assumes "players_ok (l_players l)"
  shows "Some (l_players (scanner lb 1 input l))
    = play (List.map_filter line_msg (fst (scan_lines pipesz input))) (l_players l)"
  using players_scan_lines [OF assms] by (simp add: scanner_def scanner_end_def close_matches_def)

definition sample_output :: bytes where
  "sample_output = ''noise'' @ [CHR 0x0A] @ ''-- BOLT -- Registered player: 1500'' @ [CHR 0x0A]
     @ ''-- BOLT -- Registered player: 2000'' @ [CHR 0x0D, CHR 0x0A] @ ''-- BOLT -- Unregistered player: 1500''"

lemma sample_lines: "scan_lines pipesz sample_output =
  ([''noise'', ''-- BOLT -- Registered player: 1500'', ''-- BOLT -- Registered player: 2000'',
    ''-- BOLT -- Unregistered player: 1500''], False)"
  by (simp add: sample_output_def scan_lines.simps dropCR_def)

theorem roster_follows_output_witness:
  "Some (l_players (scanner sample_lib 1 sample_output sample_lobby))
    = play [Arrive ''1500'', Arrive ''2000'', Leave ''1500''] no_players"
proof -
  have "List.map_filter line_msg (fst (scan_lines pipesz sample_output)) = [Arrive ''1500'', Arrive ''2000'', Leave ''1500'']"
    unfolding sample_lines by (simp add: List.map_filter_def line_msg_def bolt_defs)
  then show ?thesis using roster_follows_output [of sample_lobby sample_lib sample_output] by simp
qed

text \<open>C8. The status files tell the truth about the players, after every line the game prints: the file
  \<open>players\<close> holds their number and is there only when it is not zero, and the file \<open>full\<close> is there
  exactly when there are ten or more, even though the code only watches for nine and ten.\<close>

theorem status_mirrors_roster:
  assumes "mirror_env lb l" and "players_ok (l_players l)" and "mirrors l"
  shows "let l' = fold (scan_line lb 1) lines l; n = card (joined (l_players l')) in
    map_option fl_data (stat_file l' ''players'') = (if n = 0 then None else Some (Itoa (int n)))
    \<and> (stat_file l' ''full'' \<noteq> None \<longleftrightarrow> 10 \<le> n)"
  using mirror_scan_lines [OF assms, of lines] unfolding mirrors_def Let_def by blast

lemma sample_mirror: "mirror_env sample_lib sample_lobby" "mirrors sample_lobby"
  by (simp_all add: mirror_env_def pid_apart_def sample_disk_def healthy_def)
     (simp_all add: sample_lib_def mirrors_def stat_file_def file_at_def sample_disk_def no_players_def joined_def)

theorem status_mirrors_roster_witness:
  "let l' = fold (scan_line sample_lib 1) (fst (scan_lines pipesz sample_output)) sample_lobby in
    map_option fl_data (stat_file l' ''players'') = Some ''1'' \<and> stat_file l' ''full'' = None"
proof -
  let ?lines = "fst (scan_lines pipesz sample_output)"
  let ?l = "fold (scan_line sample_lib 1) ?lines sample_lobby"
  have "List.map_filter line_msg ?lines = [Arrive ''1500'', Arrive ''2000'', Leave ''1500'']"
    unfolding sample_lines by (simp add: List.map_filter_def line_msg_def bolt_defs)
  then have p: "play [Arrive ''1500'', Arrive ''2000'', Leave ''1500''] no_players = Some (l_players ?l)"
    using players_scan_lines [of sample_lobby ?lines sample_lib] by simp
  have i: "parse_id ''1500'' = 1500" "parse_id ''2000'' = 2000" by (simp_all add: go_eval)
  have "map_option joined (play [Arrive ''1500'', Arrive ''2000'', Leave ''1500''] no_players) = Some {2000}"
    by (simp add: Add_def players_set_def i no_players_def touch_def Remove_def migrate_def joined_def Let_def)
  then have "joined (l_players ?l) = {2000}" using p by simp
  moreover have "Itoa 1 = ''1''" by code_simp
  moreover have "players_ok (l_players sample_lobby)" by simp
  ultimately show ?thesis
    using status_mirrors_roster [OF sample_mirror(1) _ sample_mirror(2), of ?lines] unfolding Let_def by simp
qed

end
