(* ===== verification/GoLog.thy ===== *)
theory GoLog
  imports GoTime
begin

text \<open>
  \<open>internal/log/log.go\<close>. \<open>uptime\<close> renders the time since the process started, a monotonic
  reading and so a natural number of nanoseconds. Its last step is
  \<open>strconv.AppendFloat(d.Seconds(), 'f', prec, 64)\<close>: with at most 60 seconds the double is within
  \<open>10 ^ -14\<close> of the exact value, so every digit is that of the exact decimal, except where the
  digits dropped are exactly one half; there the binary error decides, which is the parameter
  \<open>tie\<close>. A call of \<open>Logv\<close> is the list of the writes it makes. The arguments of the format
  functions matter only in that \<open>Errorf\<close> looks at the first one.
\<close>

definition ns_second :: nat where "ns_second \<equiv> 1000000000"
definition ns_minute :: nat where "ns_minute \<equiv> 60000000000"
definition ns_hour :: nat where "ns_hour \<equiv> 3600000000000"

lemmas ns_defs = ns_second_def ns_minute_def ns_hour_def

section \<open>Uptime\<close>

text \<open>Nanoseconds \<open>d\<close> as a number of units of \<open>10 ^ -prec\<close> seconds, rounded to nearest.\<close>

definition round_units :: "(nat \<Rightarrow> nat \<Rightarrow> bool) \<Rightarrow> nat \<Rightarrow> nat \<Rightarrow> nat" where
  "round_units tie d prec =
     (if 9 \<le> prec then d * 10 ^ (prec - 9)
      else let q = 10 ^ (9 - prec); n = d div q; r = d mod q in
        if 2 * r < q then n else if q < 2 * r then n + 1 else if tie d prec then n + 1 else n)"

fun pad_digits :: "nat \<Rightarrow> nat \<Rightarrow> bytes" where
  "pad_digits 0 n = []"
| "pad_digits (Suc k) n = pad_digits k (n div 10) @ [digit_char (n mod 10)]"

lemma pad_digits_numeral:
  "pad_digits (numeral k) n = pad_digits (pred_numeral k) (n div 10) @ [digit_char (n mod 10)]"
  by (simp only: numeral_eq_Suc [of k] pad_digits.simps)

definition AppendSeconds :: "(nat \<Rightarrow> nat \<Rightarrow> bool) \<Rightarrow> nat \<Rightarrow> nat \<Rightarrow> bytes" where
  "AppendSeconds tie d prec =
     (let n = round_units tie d prec
      in dec_digits (n div 10 ^ prec) @ (if prec = 0 then [] else CHR ''.'' # pad_digits prec (n mod 10 ^ prec)))"

text \<open>The three bodies of the switch, each falling through to the next.\<close>

definition up_seconds :: "(nat \<Rightarrow> nat \<Rightarrow> bool) \<Rightarrow> bytes \<Rightarrow> nat \<Rightarrow> bytes" where
  "up_seconds tie buf d =
     (let prec = 15 - length buf - 4;
          (buf, prec) = (if d < 10 * ns_second
                         then if length buf \<noteq> 0 then (buf @ ''0'', prec) else (buf, prec + 1)
                         else (buf, prec))
      in buf @ AppendSeconds tie d prec @ ''s'')"

definition up_minutes :: "(nat \<Rightarrow> nat \<Rightarrow> bool) \<Rightarrow> bytes \<Rightarrow> nat \<Rightarrow> bytes" where
  "up_minutes tie buf d =
     (let buf = (if length buf \<noteq> 0 \<and> d < 10 * ns_minute then buf @ ''0'' else buf);
          buf = buf @ dec_digits (d div ns_minute) @ ''m''
      in up_seconds tie buf (d mod ns_minute))"

definition up_hours :: "(nat \<Rightarrow> nat \<Rightarrow> bool) \<Rightarrow> nat \<Rightarrow> bytes" where
  "up_hours tie d = up_minutes tie (dec_digits (d div ns_hour) @ ''h'') (d mod ns_hour)"

definition uptime :: "(nat \<Rightarrow> nat \<Rightarrow> bool) \<Rightarrow> nat \<Rightarrow> bytes" where
  "uptime tie d =
     (let d = (if 1000000 * ns_hour \<le> d then d - 1000000 * ns_hour else d)
      in if ns_hour \<le> d then up_hours tie d
         else if ns_minute \<le> d then up_minutes tie [] d
         else up_seconds tie [] d)"

section \<open>Lines\<close>

type_synonym prefix = "char \<times> char"

definition prefix_EE :: prefix where "prefix_EE = (CHR ''E'', CHR ''E'')"
definition prefix_DD :: prefix where "prefix_DD = (CHR ''D'', CHR ''D'')"
definition prefix_II :: prefix where "prefix_II = (CHR ''I'', CHR ''I'')"
definition prefix_WW :: prefix where "prefix_WW = (CHR ''W'', CHR ''W'')"
definition prefix_N1 :: prefix where "prefix_N1 = (CHR ''1'', CHR ''>'')"
definition prefix_N2 :: prefix where "prefix_N2 = (CHR ''2'', CHR ''>'')"
definition prefix_Line :: prefix where "prefix_Line = (CHR 0x00, CHR 0x00)"

text \<open>The first 19 bytes of the buffer: the prefix and the 15 bytes the uptime is copied over.\<close>

definition log_header :: "prefix \<Rightarrow> bytes \<Rightarrow> bytes" where
  "log_header p up =
     [fst p, snd p, CHR '' ''] @ take 15 up @ drop (length up) ''0.000000000000s'' @ '' ''"

definition newline :: bytes where
  "newline = [CHR 0x0A]"

definition Logv :: "bytes \<Rightarrow> prefix \<Rightarrow> bytes option list \<Rightarrow> bytes list" where
  "Logv up p iov =
     (let head = (if p \<noteq> prefix_Line then log_header p up else []);
          bs = (\<lambda>v. case v of None \<Rightarrow> [] | Some b \<Rightarrow> b)
      in if iov = [] then [head @ newline]
         else if length iov = 1 \<and> bs (hd iov) \<noteq> [] \<and> 19 + length (bs (hd iov)) < 1024
           then [head @ bs (hd iov) @ newline]
         else (if p \<noteq> prefix_Line then [head] else [])
              @ filter (\<lambda>b. b \<noteq> []) (map bs iov)
              @ (if last iov \<noteq> None then [newline] else []))"

text \<open>A formatted message goes through a \<open>bytes.Buffer\<close>, whose bytes are nil when it is empty.\<close>

definition Logf :: "bytes \<Rightarrow> prefix \<Rightarrow> bytes \<Rightarrow> bytes list" where
  "Logf up p msg = Logv up p [if msg = [] then None else Some msg]"

datatype fmt_arg = NilArg | ErrorArg goerror | ValueArg

text \<open>\<open>err, ok := a[0].(error)\<close>: \<open>ok\<close> for an error value, and then \<open>err\<close> is that value.\<close>

definition as_error :: "fmt_arg \<Rightarrow> goerror option \<times> bool" where
  "as_error a = (case a of ErrorArg e \<Rightarrow> (Some e, True) | _ \<Rightarrow> (None, False))"

definition Errorf :: "bytes \<Rightarrow> bytes \<Rightarrow> fmt_arg list \<Rightarrow> bytes list" where
  "Errorf up msg a =
     (if length a = 0 then Logf up prefix_EE msg
      else let (err, ok) = as_error (hd a) in
        if hd a \<noteq> NilArg \<and> (\<not> ok \<or> err \<noteq> None) then Logf up prefix_EE msg else [])"

definition Debugf :: "bytes \<Rightarrow> bytes \<Rightarrow> bytes list" where
  "Debugf up msg = Logf up prefix_DD msg"

definition Infof :: "bytes \<Rightarrow> bytes \<Rightarrow> bytes list" where
  "Infof up msg = Logf up prefix_II msg"

definition Warnf :: "bytes \<Rightarrow> bytes \<Rightarrow> bytes list" where
  "Warnf up msg = Logf up prefix_WW msg"

section \<open>Width of the uptime\<close>

lemma length_pad_digits [simp]: "length (pad_digits k n) = k"
  by (induction k arbitrary: n) auto

lemma length_dec_digits: "k > 0 \<Longrightarrow> n < 10 ^ k \<Longrightarrow> length (dec_digits n) \<le> k"
proof (induction k arbitrary: n)
  case 0
  then show ?case by simp
next
  case (Suc k)
  then show ?case
    by (subst dec_digits.simps) (cases k; auto simp: less_mult_imp_div_less mult.commute)
qed

lemma dec_digits_1: "n < 10 \<Longrightarrow> length (dec_digits n) = 1"
  by (simp add: dec_digits.simps)

lemma dec_digits_2: "10 \<le> n \<Longrightarrow> n < 100 \<Longrightarrow> length (dec_digits n) = 2"
  by (subst dec_digits.simps) (simp add: dec_digits_1 less_mult_imp_div_less)

lemma round_units_le:
  assumes "d < b * ns_second" and "prec \<le> 9"
  shows "round_units tie d prec \<le> b * 10 ^ prec"
proof (cases "prec = 9")
  case True
  with assms show ?thesis by (simp add: round_units_def ns_defs)
next
  case False
  let ?q = "10 ^ (9 - prec) :: nat"
  have q: "ns_second = 10 ^ prec * ?q"
    using assms(2) by (simp add: ns_defs power_add [symmetric])
  have "d div ?q < b * 10 ^ prec"
    by (rule less_mult_imp_div_less) (use assms(1) q in \<open>simp add: mult.assoc\<close>)
  with False assms(2) show ?thesis by (auto simp: round_units_def Let_def)
qed

text \<open>The seconds are padded with a zero for a value below 10 that rounding may carry to 10.\<close>

definition carries :: "(nat \<Rightarrow> nat \<Rightarrow> bool) \<Rightarrow> nat \<Rightarrow> nat \<Rightarrow> bool" where
  "carries tie d prec \<longleftrightarrow> d < 10 * ns_second \<and> round_units tie d prec = 10 * 10 ^ prec"

lemma length_AppendSeconds:
  assumes "0 < prec" and "prec \<le> 9" and "d < ns_minute"
  shows "length (AppendSeconds tie d prec) =
    prec + 1 + (if d < 10 * ns_second \<and> \<not> carries tie d prec then 1 else 2)"
proof -
  let ?n = "round_units tie d prec"
  have le60: "?n \<le> 60 * 10 ^ prec" using assms by (intro round_units_le) (simp_all add: ns_defs)
  have div60: "?n div 10 ^ prec \<le> 60"
    using div_le_mono [OF le60, of "10 ^ prec"] by simp
  show ?thesis
  proof (cases "d < 10 * ns_second \<and> \<not> carries tie d prec")
    case True
    then have "?n \<le> 10 * 10 ^ prec" "?n \<noteq> 10 * 10 ^ prec"
      using assms(2) by (auto intro: round_units_le simp: carries_def)
    then have "?n div 10 ^ prec < 10" by (intro less_mult_imp_div_less) simp
    with True assms(1) show ?thesis by (simp add: AppendSeconds_def Let_def dec_digits_1)
  next
    case False
    have "10 * 10 ^ prec \<le> ?n"
    proof (cases "d < 10 * ns_second")
      case True
      with False show ?thesis by (simp add: carries_def)
    next
      case False
      let ?q = "10 ^ (9 - prec) :: nat"
      have q: "ns_second = 10 ^ prec * ?q"
        using assms(2) by (simp add: ns_defs power_add [symmetric])
      have "10 * 10 ^ prec * ?q div ?q \<le> d div ?q"
        by (rule div_le_mono) (use False q in \<open>simp add: mult.assoc\<close>)
      then have "10 * 10 ^ prec \<le> d div ?q" by simp
      with False assms(2) show ?thesis by (auto simp: round_units_def Let_def ns_defs)
    qed
    then have "10 \<le> ?n div 10 ^ prec"
      using div_le_mono [of "10 * 10 ^ prec" ?n "10 ^ prec"] by simp
    with div60 have "length (dec_digits (?n div 10 ^ prec)) = 2" by (intro dec_digits_2) simp_all
    with False assms(1) show ?thesis by (auto simp: AppendSeconds_def Let_def)
  qed
qed

lemma length_up_seconds:
  assumes "buf \<noteq> []" and "2 \<le> length buf" and "length buf \<le> 10" and "d < ns_minute"
  shows "length (up_seconds tie buf d) = 15 + (if carries tie d (11 - length buf) then 1 else 0)"
proof -
  have p: "15 - length buf - 4 = 11 - length buf" by simp
  have c: "carries tie d k \<Longrightarrow> d < 10 * ns_second" for k by (simp add: carries_def)
  have "length (AppendSeconds tie d (11 - length buf)) =
      (11 - length buf) + 1 + (if d < 10 * ns_second \<and> \<not> carries tie d (11 - length buf) then 1 else 2)"
    using assms by (intro length_AppendSeconds) auto
  with assms c [of "11 - length buf"] show ?thesis
    unfolding up_seconds_def p by (auto simp: Let_def)
qed

lemma dec_digits_le_6: "n < 1000000 \<Longrightarrow> length (dec_digits n) \<le> 6"
  by (rule length_dec_digits) simp_all

lemma length_dec_pos: "1 \<le> length (dec_digits n)"
  by (cases "dec_digits n") (use dec_digits_nonempty [of n] in auto)

lemma round_units_exact: "9 \<le> prec \<Longrightarrow> round_units tie d prec = d * 10 ^ (prec - 9)"
  by (simp add: round_units_def)

lemma length_up_seconds_Nil:
  assumes "d < ns_minute"
  shows "length (up_seconds tie [] d) = 15"
proof (cases "d < 10 * ns_second")
  case True
  then have "d * 1000 div 10 ^ 12 < 10" by (intro less_mult_imp_div_less) (simp add: ns_defs)
  with True show ?thesis
    by (simp add: up_seconds_def AppendSeconds_def Let_def round_units_exact dec_digits_1)
next
  case False
  have "d * 100 div 10 ^ 11 < 100"
    using assms by (intro less_mult_imp_div_less) (simp add: ns_defs)
  moreover have "10 \<le> d * 100 div 10 ^ 11"
    using False div_le_mono [of "10 * 10 ^ 11" "d * 100" "10 ^ 11"] by (simp add: ns_defs)
  ultimately show ?thesis using False
    by (simp add: up_seconds_def AppendSeconds_def Let_def round_units_exact dec_digits_2)
qed

text \<open>The bytes of the hours and minutes before the seconds.\<close>

definition clock_width :: "nat \<Rightarrow> nat" where
  "clock_width d =
     (if ns_hour \<le> d then length (dec_digits (d div ns_hour)) + 4
      else length (dec_digits (d div ns_minute)) + 1)"

lemma minutes_lt_60: "d mod ns_hour div ns_minute < 60"
  by (rule less_mult_imp_div_less) (simp add: ns_defs)

lemma dec_digits_60: "n < 60 \<Longrightarrow> length (dec_digits n) = (if n < 10 then 1 else 2)"
  by (simp add: dec_digits_1 dec_digits_2)

lemma minutes_digit: "d < 10 * ns_minute \<longleftrightarrow> d div ns_minute < 10"
  by (simp add: div_less_iff_less_mult ns_defs)

section \<open>Properties\<close>



text \<open>The exceptional case in full: the line loses the unit.\<close>

lemma uptime_overflows:
  "uptime tie (10 * ns_minute + 9999999999) = ''10m010.00000000s''"
  "log_header prefix_EE (uptime tie (10 * ns_minute + 9999999999)) = ''EE 10m010.00000000 ''"
  by (simp_all add: uptime_def up_minutes_def up_seconds_def AppendSeconds_def round_units_def Let_def
      dec_digits.simps digit_char_eval pad_digits_numeral ns_defs log_header_def prefix_EE_def)

text \<open>Whatever it is given, \<open>Logv\<close> with a source prefix puts out one line: a 19-byte header
  that begins with the prefix, the bytes of its arguments in order, and a newline unless the last
  argument is nil (a line to be continued). A single nonempty argument that fits the buffer goes
  out in one write, so such lines from several goroutines never mix.\<close>

theorem Logv_line:
  assumes "p \<noteq> prefix_Line" and "iov \<noteq> []" and "14 \<le> length up"
  shows "concat (Logv up p iov) =
      log_header p up @ concat (map (\<lambda>v. case v of None \<Rightarrow> [] | Some b \<Rightarrow> b) iov)
        @ (if last iov = None then [] else newline)
    \<and> length (log_header p up) = 19 \<and> take 2 (log_header p up) = [fst p, snd p]
    \<and> (\<forall>b. iov = [Some b] \<longrightarrow> b \<noteq> [] \<longrightarrow> length b < 1005 \<longrightarrow> length (Logv up p iov) = 1)"
proof -
  have nonempty: "concat (filter (\<lambda>b. b \<noteq> []) xs) = concat xs" for xs :: "bytes list"
    by (induction xs) auto
  have "concat (Logv up p iov) =
      log_header p up @ concat (map (\<lambda>v. case v of None \<Rightarrow> [] | Some b \<Rightarrow> b) iov)
        @ (if last iov = None then [] else newline)"
  proof (cases "\<exists>b. iov = [Some b] \<and> b \<noteq> [] \<and> length b < 1005")
    case True
    with assms(1) show ?thesis by (auto simp: Logv_def Let_def)
  next
    case False
    then have "\<not> (length iov = 1 \<and> (case hd iov of None \<Rightarrow> [] | Some b \<Rightarrow> b) \<noteq> []
        \<and> 19 + length (case hd iov of None \<Rightarrow> [] | Some b \<Rightarrow> b) < 1024)"
      by (auto simp: length_Suc_conv split: option.splits)
    with assms(1,2) show ?thesis by (auto simp: Logv_def Let_def nonempty)
  qed
  moreover have "length (log_header p up) = 19" using assms(3) by (simp add: log_header_def)
  ultimately show ?thesis using assms(1) by (auto simp: Logv_def Let_def log_header_def)
qed

theorem Logv_line_witness:
  "concat (Logv ''0.000000000001s'' prefix_N1 [Some ''ready'']) = ''1> 0.000000000001s ready'' @ newline
   \<and> length (Logv ''0.000000000001s'' prefix_N1 [Some ''ready'']) = 1"
  using Logv_line [of prefix_N1 "[Some ''ready'']" "''0.000000000001s''"]
  by (simp add: prefix_N1_def prefix_Line_def log_header_def)

end
