(* ===== verification/LobbyOutput.thy ===== *)
theory LobbyOutput
  imports LobbyMirror GoLog
begin

text \<open>
  What the scanner does with a whole output: the lines it sees, what it writes to the log, and what
  it hands to the collectors. No output makes a lobby panic, however it was made.
\<close>

section \<open>Lines\<close>

lemma takeWhile_newline: "CHR 0x0A \<notin> set w \<Longrightarrow> takeWhile (\<lambda>c. c \<noteq> CHR 0x0A) (w @ CHR 0x0A # s) = w"
  by (induction w) auto

lemma scan_lines_step:
  assumes "CHR 0x0A \<notin> set w" and "length w < cap"
  shows "scan_lines cap (w @ CHR 0x0A # s) = (case scan_lines cap s of (ls, e) \<Rightarrow> (dropCR w # ls, e))"
  using assms by (simp add: scan_lines.simps [of cap "w @ CHR 0x0A # s"] Let_def takeWhile_newline)

lemma scan_lines_many:
  "\<forall>w \<in> set ws. CHR 0x0A \<notin> set w \<and> length w < cap \<Longrightarrow>
    scan_lines cap (concat (map (\<lambda>w. w @ [CHR 0x0A]) ws) @ s) = (map dropCR ws @ fst (scan_lines cap s), snd (scan_lines cap s))"
  by (induction ws) (simp_all add: scan_lines_step case_prod_unfold)

lemma takeWhile_no_newline: "CHR 0x0A \<notin> set w \<Longrightarrow> length w \<le> length (takeWhile (\<lambda>c. c \<noteq> CHR 0x0A) (w @ s))"
  by (induction w) auto

lemma scan_lines_stop: "CHR 0x0A \<notin> set w \<Longrightarrow> cap \<le> length w \<Longrightarrow> 0 < cap \<Longrightarrow> scan_lines cap (w @ s) = ([], True)"
  using takeWhile_no_newline [of w s] by (auto simp: scan_lines.simps [of cap "w @ s"] Let_def)

lemma scan_lines_rest: "CHR 0x0A \<notin> set w \<Longrightarrow> length w < cap \<Longrightarrow> scan_lines cap w = (if w = [] then [] else [dropCR w], False)"
proof -
  assume a: "CHR 0x0A \<notin> set w" "length w < cap"
  then have t: "takeWhile (\<lambda>c. c \<noteq> CHR 0x0A) w = w" by (auto simp: takeWhile_eq_all_conv)
  show ?thesis using a(2) by (simp add: scan_lines.simps [of cap w] t Let_def)
qed

lemma scan_lines_short: "w \<in> set (fst (scan_lines cap s)) \<Longrightarrow> length w < cap"
proof (induction cap s rule: scan_lines.induct)
  case (1 cap s)
  let ?w = "takeWhile (\<lambda>c. c \<noteq> CHR 0x0A) s"
  have d: "length (dropCR v) \<le> length v" for v by (simp add: dropCR_def)
  show ?case
  proof (cases "s \<noteq> [] \<and> length ?w < length s \<and> length ?w < cap")
    case True
    then have "w = dropCR ?w \<or> w \<in> set (fst (scan_lines cap (drop (Suc (length ?w)) s)))"
      using "1.prems" by (simp add: scan_lines.simps [of cap s] Let_def case_prod_unfold)
    then show ?thesis using "1.IH" True d [of ?w] by auto
  next
    case False
    then have "w = dropCR s" "length s < cap"
      using "1.prems" by (simp_all add: scan_lines.simps [of cap s] Let_def split: if_splits)
    then show ?thesis using d [of s] by simp
  qed
qed

section \<open>Properties of the output\<close>

text \<open>C7. No output of the game breaks the lobby. Whatever bytes either stream carries, the scanner
  does not panic: it never sends on or closes a closed channel and never follows a nil admin; at
  most ten matches wait, each with an id and kills; and a lobby that was told to stop for a reason
  still stops for that one.\<close>

theorem no_output_breaks_the_lobby:
  assumes "lobby_ok l" and "l_matches_chan l = OpenChan"
  shows "let l' = scanner lb fd input l in lobby_ok l' \<and> \<not> l_panic l' \<and> length (l_matches l') \<le> 10
    \<and> (settled (l_reason l) = 2 \<longrightarrow> l_reason l' = l_reason l) \<and> l_reason l' \<noteq> None"
proof -
  let ?r = "fold (scan_line lb fd) (fst (scan_lines pipesz input)) l"
  have r: "lobby_ok ?r" "l_matches_chan ?r = OpenChan" using scan_handler.run_ok [OF assms] by blast+
  have c: "lobby_ok (close_matches (collect lb l'))" if "lobby_ok l'" "l_matches_chan l' = OpenChan" for l'
    using collect_inv(1) [OF that] that(2) ok_cong [of "close_matches (collect lb l')" "collect lb l'"]
    by (simp add: close_matches_def)
  have "lobby_ok (scanner lb fd input l)"
    using c [OF r] r(1) assms(1) by (cases "fd = 1") (auto simp: scanner_def scanner_end_def cancel_inv(1))
  moreover have "l_reason (scanner lb fd input l) = l_reason l" if "settled (l_reason l) = 2"
  proof -
    have "l_reason ?r = l_reason l" using that by (rule scan_handler.run_reason [OF assms])
    with that show ?thesis
      by (cases "fd = 1"; cases "fd = 2") (auto simp: scanner_def scanner_end_def close_matches_def Cancel_reason)
  qed
  moreover have "l_reason (scanner lb fd input l) \<noteq> None"
    by (simp add: scanner_def scanner_end_def Cancel_settles del: not_None_eq)
  ultimately show ?thesis by (auto simp: lobby_ok_def cancel_ok_def queue_ok_def Let_def)
qed

lemma sample_ok: "lobby_ok sample_lobby"
  by (simp add: lobby_ok_def cancel_ok_def queue_ok_def)

theorem no_output_breaks_the_lobby_witness:
  "let l' = scanner sample_lib 1 sample_output (cancel sample_lib ErrLobbyStopped sample_lobby)
   in lobby_ok l' \<and> l_reason l' = Some ErrLobbyStopped"
  using no_output_breaks_the_lobby [of "cancel sample_lib ErrLobbyStopped sample_lobby" sample_lib 1 sample_output]
    cancel_inv(1) [OF sample_ok]
  by (simp add: Cancel_reason Let_def)



lemma stderr_copied:
  "fold (scan_line lb 2) lines l = l\<lparr>l_out := l_out l @
     map (Pair 2) (filter (\<lambda>bs. \<not> ignored stderrIgnorePrefixes stderrIgnoreContains (TrimSpace bs)) lines)\<rparr>"
proof (induction lines arbitrary: l)
  case (Cons line lines)
  have "TrimSpace [] = []" using TrimSpace_sub [of "[]"] by simp
  then have "ignored stderrIgnorePrefixes stderrIgnoreContains (TrimSpace [])" by (simp add: ignored_def)
  then have "scan_line lb 2 line l = (if ignored stderrIgnorePrefixes stderrIgnoreContains (TrimSpace line)
      then l else l\<lparr>l_out := l_out l @ [(2, line)]\<rparr>)"
    by (cases line) (simp_all add: scan_line_def lfilter_def)
  then show ?case by (simp add: Cons.IH)
qed simp
text \<open>Standard error is only copied: its lines reach the log in order except the known noise, and
  nothing else of the lobby changes.\<close>

theorem stderr_is_only_copied:
  "fold (scan_line lb 2) lines l = l\<lparr>l_out := l_out l @
     map (Pair 2) (filter (\<lambda>bs. \<not> ignored stderrIgnorePrefixes stderrIgnoreContains (TrimSpace bs)) lines)\<rparr>"
  by (rule stderr_copied)

section \<open>The life of a match\<close>

definition json_object :: "bytes \<Rightarrow> bool" where
  "json_object bs \<longleftrightarrow> HasPrefix bs ''{'' \<and> last bs = CHR ''}''"

text \<open>The lines that report a kill, and those that report a match.\<close>

definition kill_line :: "lib \<Rightarrow> bytes \<Rightarrow> kill \<Rightarrow> bool" where
  "kill_line lb bs k \<longleftrightarrow> json_object bs \<and> trunc \<le> length bs
     \<and> Index (take trunc bs) ''\"shooterId\"'' \<noteq> -1 \<and> unmarshal_kill lb bs = Some k"

definition match_line :: "lib \<Rightarrow> bytes \<Rightarrow> gmatch \<Rightarrow> bool" where
  "match_line lb bs m \<longleftrightarrow> json_object bs \<and> trunc \<le> length bs
     \<and> Index (take trunc bs) ''\"shooterId\"'' = -1 \<and> Index (take trunc bs) ''\"matchId\"'' \<noteq> -1
     \<and> unmarshal_match lb bs = Some m"

lemma json_scanned:
  assumes "json_object bs"
  shows "scan_line lb 1 bs l = (case filterjson lb bs l of (r, l') \<Rightarrow> l'\<lparr>l_out := l_out l' @ [(1, fst r)]\<rparr>)"
proof -
  obtain s where s: "bs = CHR ''{'' # s" using assms by (auto simp: json_object_def HasPrefix_iff)
  have "\<not> ignored stdoutIgnorePrefixes [] (TrimSpace bs)"
    by (rule not_ignored [of "CHR ''{''" bs s]) (simp_all add: s stdoutIgnorePrefixes_def)
  moreover have "fst (fst (filterjson lb bs l)) \<noteq> []" "snd (fst (filterjson lb bs l)) = None"
    using s by (simp_all add: filterjson_def truncate_line_def)
  ultimately show ?thesis using assms s
    by (simp add: scan_line_def lfilter_def act_on_line_def json_object_def case_prod_unfold)
qed

lemma kill_scanned:
  assumes "kill_line lb bs k" and "LogDir (l_opts l) \<noteq> []"
  shows "l_m (scan_line lb 1 bs l) = (l_m l)\<lparr>KillData := KillData (l_m l) @ [k]\<rparr>"
    and "l_matches (scan_line lb 1 bs l) = l_matches l"
  using assms json_scanned [of bs lb l] by (simp_all add: kill_line_def filterjson_def)

lemma kills_scanned:
  assumes "list_all2 (kill_line lb) bss ks" and "LogDir (l_opts l) \<noteq> []" and "lobby_ok l" and "l_matches_chan l = OpenChan"
  shows "l_m (fold (scan_line lb 1) bss l) = (l_m l)\<lparr>KillData := KillData (l_m l) @ ks\<rparr>
    \<and> l_matches (fold (scan_line lb 1) bss l) = l_matches l"
  using assms
proof (induction arbitrary: l rule: list_all2_induct)
  case (Cons bs bss k ks)
  let ?l = "scan_line lb 1 bs l"
  have "lobby_ok ?l" "legal l ?l"
    using scan_handler.step_ok [OF Cons.prems(2,3)] scan_handler.step_legal [OF Cons.prems(2,3)] by blast+
  then have "l_opts ?l = l_opts l" "l_matches_chan ?l = OpenChan" using Cons.prems(3) by (simp_all add: legal_def)
  with Cons.IH [of ?l] \<open>lobby_ok ?l\<close> Cons.prems kill_scanned [OF Cons.hyps(1) Cons.prems(1)] show ?case by simp
qed simp

text \<open>The match a line announces, if its id carries the session and a time.\<close>

definition announced :: "lib \<Rightarrow> bytes \<Rightarrow> gmatch \<Rightarrow> time \<Rightarrow> bool" where
  "announced lb session m t \<longleftrightarrow>
     (let i = Index (MatchID m) session in
      MatchID m \<noteq> '''' \<and> i \<noteq> -1 \<and> i \<noteq> int (length (MatchID m)) - int (length session)
      \<and> parse_match_time lb (drop (nat i + length session) (MatchID m)) = Some t)"

lemma set_match_started:
  assumes "announced lb (l_session l) m t" and "MatchID (l_m l) = ''''" and "l_matches_chan l = OpenChan"
  shows "l_m (set_match lb m l) = m\<lparr>Timestamp := t\<rparr>" and "l_matches (set_match lb m l) = l_matches l"
  using assms by (simp_all add: announced_def set_match_def Let_def match_started_def collect_matches)

lemma match_scanned:
  assumes "match_line lb bs m" and "LogDir (l_opts l) \<noteq> []" and "announced lb (l_session l) m t"
    and "MatchID (l_m l) = ''''" and "l_matches_chan l = OpenChan"
  shows "l_m (scan_line lb 1 bs l) = m\<lparr>Timestamp := t\<rparr>" and "l_matches (scan_line lb 1 bs l) = l_matches l"
  using assms json_scanned [of bs lb l] set_match_started [OF assms(3-5)]
  by (simp_all add: match_line_def filterjson_def)

lemma upload_scanned:
  assumes "HasPrefix bs upload"
  shows "l_m (scan_line lb 1 bs l) = l_m (collect lb l)" and "l_matches (scan_line lb 1 bs l) = l_matches (collect lb l)"
proof -
  obtain s where s: "bs = CHR ''U'' # s" using assms by (auto simp: upload_def HasPrefix_iff)
  have "\<not> ignored stdoutIgnorePrefixes [] (TrimSpace bs)"
    by (rule not_ignored [of "CHR ''U''" bs s]) (simp_all add: s stdoutIgnorePrefixes_def)
  moreover have "\<not> HasPrefix bs bolt" using s by (simp add: bolt_def)
  ultimately have "scan_line lb 1 bs l = (collect lb l)\<lparr>l_out := l_out (collect lb l) @ [(1, bs)]\<rparr>"
    using assms s by (simp add: scan_line_def lfilter_def act_on_line_def)
  then show "l_m (scan_line lb 1 bs l) = l_m (collect lb l)" "l_matches (scan_line lb 1 bs l) = l_matches (collect lb l)"
    by simp_all
qed

text \<open>C11. A match is collected whole: from the line that announces it, through the kills in the order
  they are reported, to the line that ends it, the scanner builds exactly the match that is queued
  for the collectors, stamped with the time in its id, and then waits for a new one.\<close>

theorem match_is_collected_whole:
  assumes "lobby_ok l" and "l_matches_chan l = OpenChan" and "LogDir (l_opts l) \<noteq> []"
    and "length (l_matches l) < 10" and "MatchID (l_m l) = ''''"
    and "match_line lb start m" and "announced lb (l_session l) m t"
    and "list_all2 (kill_line lb) kills ks" and "KillData m @ ks \<noteq> []" and "HasPrefix finish upload"
  shows "let l' = fold (scan_line lb 1) (start # kills @ [finish]) l in
    l_matches l' = l_matches l @ [m\<lparr>Timestamp := t, KillData := KillData m @ ks\<rparr>] \<and> MatchID (l_m l') = ''''"
proof -
  let ?l1 = "scan_line lb 1 start l" and ?l2 = "fold (scan_line lb 1) (start # kills) l"
  have 1: "lobby_ok ?l1" "legal l ?l1"
    using scan_handler.step_ok [OF assms(1,2)] scan_handler.step_legal [OF assms(1,2)] by blast+
  then have f1: "l_opts ?l1 = l_opts l" "l_matches_chan ?l1 = OpenChan" using assms(2) by (simp_all add: legal_def)
  note m = match_scanned [OF assms(6,3,7,5,2)]
  have k: "l_m ?l2 = (m\<lparr>Timestamp := t\<rparr>)\<lparr>KillData := KillData m @ ks\<rparr>" "l_matches ?l2 = l_matches l"
    using kills_scanned [OF assms(8), of ?l1] 1 f1 assms(3) m by simp_all
  have c: "l_matches_chan ?l2 = OpenChan" using scan_handler.run_ok [OF assms(1,2)] by blast
  have "MatchID m \<noteq> ''''" using assms(7) by (simp add: announced_def Let_def)
  then show ?thesis
    using upload_scanned [OF assms(10), of lb ?l2] collect_matches [OF c, of lb] k assms(4,9) by simp
qed

definition sample_start :: bytes where
  "sample_start = ''{\"matchId\":fors@1'' @ replicate 60 (CHR '' '') @ ''}''"

definition sample_kill_line :: bytes where
  "sample_kill_line = ''{\"shooterId\":'' @ replicate 60 (CHR ''7'') @ ''}''"

theorem match_is_collected_whole_witness:
  "let l' = fold (scan_line sample_lib 1) (sample_start # [sample_kill_line, sample_kill_line] @ [''Upload complete.'']) sample_lobby in
    length (l_matches l') = 1 \<and> map (length \<circ> KillData) (l_matches l') = [2] \<and> MatchID (l_m l') = ''''"
proof -
  let ?m = "(new_match 0)\<lparr>MatchID := drop 11 sample_start\<rparr>"
  let ?k = "plain_kill\<lparr>ShooterID := drop 11 sample_kill_line\<rparr>"
  have ml: "match_line sample_lib sample_start ?m"
    unfolding match_line_def json_object_def sample_lib_def sample_start_def by code_simp
  have kl: "kill_line sample_lib sample_kill_line ?k"
    by (simp add: kill_line_def json_object_def sample_kill_line_def) (simp add: sample_lib_def sample_kill_line_def)
  obtain t where an: "announced sample_lib ''s'' ?m t"
    unfolding announced_def by (simp add: sample_start_def Let_def) (simp add: sample_lib_def)
  show ?thesis
    using match_is_collected_whole [of sample_lobby sample_lib sample_start ?m t "[sample_kill_line, sample_kill_line]" "[?k, ?k]" "''Upload complete.''"]
      sample_ok ml kl an by (simp add: upload_def Let_def)
qed

section \<open>Long lines\<close>

lemma length_Itoa_nat: "0 < k \<Longrightarrow> n < 10 ^ k \<Longrightarrow> length (Itoa (int n)) \<le> k"
  using length_dec_digits [of k n] by (simp add: Itoa_def)

lemma truncate_line_short:
  assumes "length bs < pipesz"
  shows "length (truncate_line bs 66) \<le> 85" and "take 66 (truncate_line bs 66) = take 66 bs"
proof -
  have "length (Itoa (int (length bs - 66))) \<le> 7" using assms by (intro length_Itoa_nat) simp_all
  moreover have "int (length bs) - 66 = int (length bs - 66)" if "66 \<le> length bs" using that by simp
  ultimately show "length (truncate_line bs 66) \<le> 85" by (auto simp: truncate_line_def not_less)
  show "take 66 (truncate_line bs 66) = take 66 bs" by (simp add: truncate_line_def)
qed

text \<open>JSON never floods the log: whatever a line of JSON holds, at most 85 bytes of it are logged, and
  they start with its first 66 bytes.\<close>

theorem json_is_logged_short:
  assumes "line \<in> set (fst (scan_lines pipesz input))" and "json_object line"
  shows "\<exists>bs. l_out (scan_line lb 1 line l) = l_out (snd (filterjson lb line l)) @ [(1, bs)]
    \<and> length bs \<le> 85 \<and> take 66 bs = take 66 line"
  using json_scanned [OF assms(2), of lb l] truncate_line_short [OF scan_lines_short [OF assms(1)]]
  by (simp add: case_prod_unfold filterjson_def)

theorem json_is_logged_short_witness:
  "\<exists>bs. l_out (scan_line sample_lib 1 ''{}'' sample_lobby) = l_out (snd (filterjson sample_lib ''{}'' sample_lobby)) @ [(1, bs)]
    \<and> length bs \<le> 85 \<and> take 66 bs = take 66 ''{}''"
  by (rule json_is_logged_short [of "''{}''" "''{}''"]) (simp_all add: scan_lines.simps dropCR_def json_object_def)

text \<open>A line of exactly 66 bytes is not cut, but is logged with a remark that nothing was.\<close>

lemma truncate_remarks_on_nothing: "length bs = 66 \<Longrightarrow> truncate_line bs 66 = bs @ ''... (0 bytes)''"
proof -
  have "Itoa 0 = ''0''" by code_simp
  then show "length bs = 66 \<Longrightarrow> truncate_line bs 66 = bs @ ''... (0 bytes)''" by (simp add: truncate_line_def)
qed

end
