(* ===== verification/LobbyWatcher.thy ===== *)
theory LobbyWatcher
  imports LobbyOutput
begin

text \<open>
  \<open>internal/lobby/watch.go\<close>: the goroutine that stops a lobby that is not used, or that the spec
  wants stopped. \<open>watcher_tick\<close> is the body of its loop on a tick, with the local \<open>lastup\<close> as an
  argument; it answers whether the goroutine returns. \<open>watcher\<close> is the whole goroutine on the
  signals its \<open>select\<close> received.
\<close>

definition watch_enabled :: "lobby_options \<Rightarrow> bool" where
  "watch_enabled opts \<longleftrightarrow> \<not> (Timeout opts \<le> 0 \<and> AdminTimeout opts \<le> 0)"

definition watch_every :: "lobby_options \<Rightarrow> duration" where
  "watch_every opts =
     (let every = Second; flr = 200 * Millisecond;
          every = (if 0 < Timeout opts \<and> Timeout opts < every then Timeout opts else every);
          every = (if 0 < AdminTimeout opts \<and> AdminTimeout opts < every then AdminTimeout opts else every)
      in if every < flr then flr else every)"

definition watcher_tick :: "lib \<Rightarrow> time \<Rightarrow> time \<Rightarrow> lobby \<Rightarrow> bool \<times> time \<times> lobby" where
  "watcher_tick lb now lastup l =
     (let lastidle = Timestamp (l_m l);
          lastup = (if \<not> IsZero (Up (l_spec l)) \<or> \<not> IsZero (PeerFull (l_spec l)) then now else lastup);
          lastidle = (if Before lastidle lastup then lastup else lastidle);
          players = fst (Count (l_players l));
          (d, l) = time_Since lastidle l;
          since = Round d (100 * Microsecond)
      in if ForceDownAfter (Some (l_spec l)) (l_t1 l) then (True, lastup, cancel lb ErrLobbyDowned l)
         else if MatchID (l_m l) \<noteq> '''' then (False, lastup, l)
         else
           let (force, reason) = ReasonAfter (Some (l_spec l)) (l_t1 l) since (MinUptime (l_opts l));
               reason =
                 (if players \<noteq> 0 then
                    let reason = (if \<not> force then None else reason) in
                    if reason = None \<and> 0 < AdminTimeout (l_opts l) \<and> AdminTimeout (l_opts l) < since
                    then Some ErrLobbyAdminTimeout else reason
                  else if reason = None \<and> 0 < Timeout (l_opts l) \<and> Timeout (l_opts l) < since
                  then Some ErrLobbyTimeout else reason)
           in case reason of None \<Rightarrow> (False, lastup, l) | Some r \<Rightarrow> (True, lastup, cancel lb r l))"

datatype wake = TickAt time | LobbyDone

fun watcher_loop :: "lib \<Rightarrow> wake list \<Rightarrow> time \<Rightarrow> lobby \<Rightarrow> lobby" where
  "watcher_loop lb [] lastup l = l"
| "watcher_loop lb (LobbyDone # ws) lastup l = l"
| "watcher_loop lb (TickAt now # ws) lastup l =
     (case watcher_tick lb now lastup l of
        (True, _, l) \<Rightarrow> l
      | (False, lastup, l) \<Rightarrow> watcher_loop lb ws lastup l)"

definition watcher :: "lib \<Rightarrow> wake list \<Rightarrow> lobby \<Rightarrow> lobby" where
  "watcher lb ws l =
     (if \<not> watch_enabled (l_opts l) then l
      else cancel lb ErrLobbyDone (watcher_loop lb ws (Timestamp (l_m l)) l))"

section \<open>A tick\<close>

text \<open>The moment the lobby counts as idle from, and the idle time a tick computes.\<close>

definition idle_from :: "time \<Rightarrow> time \<Rightarrow> lobby \<Rightarrow> time" where
  "idle_from now lastup l =
     max (Timestamp (l_m l)) (if Up (l_spec l) \<noteq> 0 \<or> PeerFull (l_spec l) \<noteq> 0 then now else lastup)"

definition idle_time :: "time \<Rightarrow> time \<Rightarrow> lobby \<Rightarrow> duration" where
  "idle_time now lastup l = Round (Sub (l_clock l (l_reads l)) (idle_from now lastup l)) (100 * Microsecond)"

text \<open>The reason a tick stops the lobby for, if it does.\<close>

definition tick_reason :: "time \<Rightarrow> time \<Rightarrow> lobby \<Rightarrow> goerror option" where
  "tick_reason now lastup l =
     (let since = idle_time now lastup l;
          (force, reason) = ReasonAfter (Some (l_spec l)) (l_t1 l) since (MinUptime (l_opts l));
          busy = joined (l_players l) \<noteq> {};
          limit = (if busy then AdminTimeout (l_opts l) else Timeout (l_opts l))
      in if ForceDownAfter (Some (l_spec l)) (l_t1 l) then Some ErrLobbyDowned
         else if MatchID (l_m l) \<noteq> '''' then None
         else if reason \<noteq> None \<and> (busy \<longrightarrow> force) then reason
         else if 0 < limit \<and> limit < since then Some (if busy then ErrLobbyAdminTimeout else ErrLobbyTimeout)
         else None)"

lemma time_now_frame [simp]:
  "l_spec (snd (time_now l)) = l_spec l" "l_t1 (snd (time_now l)) = l_t1 l" "l_m (snd (time_now l)) = l_m l"
  "l_opts (snd (time_now l)) = l_opts l" "l_reason (snd (time_now l)) = l_reason l"
  "l_players (snd (time_now l)) = l_players l" "l_done (snd (time_now l)) = l_done l"
  "l_proc (snd (time_now l)) = l_proc l"
  by (simp_all add: time_now_def)

lemma time_Since_idle:
  "time_Since (idle_from now lastup l) l = (Sub (l_clock l (l_reads l)) (idle_from now lastup l), snd (time_now l))"
  by (simp add: time_Since_def time_now_def)

lemma watcher_tick_reason:
  assumes "players_ok (l_players l)"
  shows "\<exists>lastup'. watcher_tick lb now lastup l =
    (case tick_reason now lastup l of
       None \<Rightarrow> (False, lastup', snd (time_now l))
     | Some r \<Rightarrow> (True, lastup', cancel lb r (snd (time_now l))))"
proof -
  have busy: "joined (l_players l) \<noteq> {} \<longleftrightarrow> fst (Count (l_players l)) \<noteq> 0"
    using Count_joined [OF assms] by auto
  let ?up = "if Up (l_spec l) \<noteq> 0 \<or> PeerFull (l_spec l) \<noteq> 0 then now else lastup"
  have m: "(if Before (Timestamp (l_m l)) ?up then ?up else Timestamp (l_m l)) = idle_from now lastup l"
    by (auto simp: Before_def idle_from_def max_def)
  have up: "(if \<not> IsZero (Up (l_spec l)) \<or> \<not> IsZero (PeerFull (l_spec l)) then now else lastup) = ?up"
    by (simp add: IsZero_def)
  obtain force reason where r: "ReasonAfter (Some (l_spec l)) (l_t1 l) (idle_time now lastup l) (MinUptime (l_opts l)) = (force, reason)"
    by fastforce
  define n where "n = fst (Count (l_players l))"
  have "watcher_tick lb now lastup l =
    (case tick_reason now lastup l of
       None \<Rightarrow> (False, ?up, snd (time_now l))
     | Some r \<Rightarrow> (True, ?up, cancel lb r (snd (time_now l))))"
    unfolding watcher_tick_def tick_reason_def Let_def up m busy time_Since_idle case_prod_conv time_now_frame
      idle_time_def [symmetric] r n_def [symmetric]
    by (cases reason; cases force; cases "n = 0"; simp)
  then show ?thesis by blast
qed

lemma watcher_tick_shape:
  "snd (snd (watcher_tick lb now lastup l)) = snd (time_now l) \<or>
     (\<exists>r. snd (snd (watcher_tick lb now lastup l)) = cancel lb r (snd (time_now l)))"
proof -
  have s: "snd (time_Since t l) = snd (time_now l)" for t by (simp add: time_Since_def time_now_def)
  define Q where "Q = (\<lambda>x :: bool \<times> time \<times> lobby. snd (snd x) = snd (time_now l) \<or> (\<exists>r. snd (snd x) = cancel lb r (snd (time_now l))))"
  have q: "Q (b, u, snd (time_now l))" "Q (b, u, cancel lb r (snd (time_now l)))" for b u r
    by (auto simp: Q_def)
  have qif: "Q x \<Longrightarrow> Q y \<Longrightarrow> Q (if b then x else y)" for b x y by simp
  have qcase: "Q x \<Longrightarrow> (\<And>r. Q (f r)) \<Longrightarrow> Q (case r of None \<Rightarrow> x | Some r \<Rightarrow> f r)" for x f and r :: "goerror option"
    by (cases r) simp_all
  have "Q (watcher_tick lb now lastup l)"
    unfolding watcher_tick_def Let_def case_prod_unfold s by (intro qif qcase q)
  then show ?thesis by (simp add: Q_def)
qed

lemma watcher_tick_inv:
  "lobby_ok l \<Longrightarrow> lobby_ok (snd (snd (watcher_tick lb now lastup l)))"
  "legal l (snd (snd (watcher_tick lb now lastup l)))"
proof -
  have t: "lobby_ok (snd (time_now l)) = lobby_ok l" "legal l (snd (time_now l))"
    by (simp_all add: time_now_def lobby_ok_def cancel_ok_def legal_def)
  show "legal l (snd (snd (watcher_tick lb now lastup l)))"
    using watcher_tick_shape [of lb now lastup l] t(2) cancel_inv(2) by (auto intro: legal_trans)
  show "lobby_ok l \<Longrightarrow> lobby_ok (snd (snd (watcher_tick lb now lastup l)))"
    using watcher_tick_shape [of lb now lastup l] t(1) cancel_inv(1) [of "snd (time_now l)" lb] by auto
qed

interpretation tick_handler: handler "\<lambda>(now, lastup) l. snd (snd (watcher_tick lb now lastup l))" "\<lambda>l. True" for lb
  by unfold_locales (auto simp: watcher_tick_inv)

lemma tick_reason_lobby:
  assumes "players_ok (l_players l)" and "l_reason l = None"
  shows "fst (watcher_tick lb now lastup l) \<longleftrightarrow> tick_reason now lastup l \<noteq> None"
    and "l_reason (snd (snd (watcher_tick lb now lastup l))) = tick_reason now lastup l"
  using watcher_tick_reason [OF assms(1), of lb now lastup] assms(2)
  by (auto simp: Cancel_reason split: option.splits)

section \<open>Properties\<close>

text \<open>The watcher looks at least every second and at most five times a second, and as often as the
  shorter of its two timeouts asks for within these limits.\<close>

theorem watch_every_bounds:
  "200 * Millisecond \<le> watch_every opts \<and> watch_every opts \<le> Second
   \<and> (\<forall>d \<in> {Timeout opts, AdminTimeout opts}. 0 < d \<longrightarrow> watch_every opts \<le> max d (200 * Millisecond))"
  by (auto simp: watch_every_def Let_def max_def)

theorem watch_every_bounds_witness:
  "200 * Millisecond \<le> watch_every sample_options \<and> watch_every sample_options = Second"
  using watch_every_bounds [of sample_options] by (simp add: watch_every_def)

text \<open>C17. Nobody is thrown out for somebody else's wish: while players are in the lobby a tick stops it
  only for a forced demand of the spec, or, between matches, because the admin let the admin
  timeout pass; and during a match only a forced shutdown counts.\<close>

theorem watcher_spares_players:
  assumes "players_ok (l_players l)" and "joined (l_players l) \<noteq> {}" and "l_reason l = None"
    and "fst (watcher_tick lb now lastup l)"
  shows "let reason = l_reason (snd (snd (watcher_tick lb now lastup l)));
             since = idle_time now lastup l;
             asked = ReasonAfter (Some (l_spec l)) (l_t1 l) since (MinUptime (l_opts l))
     in (fst asked \<and> reason = snd asked
         \<or> reason = Some ErrLobbyAdminTimeout \<and> 0 < AdminTimeout (l_opts l) \<and> AdminTimeout (l_opts l) < since)
      \<and> (MatchID (l_m l) \<noteq> '''' \<longrightarrow> ForceDownAfter (Some (l_spec l)) (l_t1 l) \<and> reason = Some ErrLobbyDowned)"
proof -
  note r = tick_reason_lobby [OF assms(1,3), of lb now lastup]
  have "tick_reason now lastup l \<noteq> None" using assms(4) r(1) by simp
  then show ?thesis
    unfolding r(2) Let_def
    using assms(2) ForceDownAfter_reason [of "Some (l_spec l)" "l_t1 l" "idle_time now lastup l" "MinUptime (l_opts l)"]
    by (auto simp: tick_reason_def Let_def case_prod_unfold split: if_splits)
qed

definition busy_lobby :: lobby where
  "busy_lobby = sample_lobby\<lparr>l_players := snd (the (Add ''1500'' no_players)),
     l_spec := zero_spec\<lparr>ForceStop := 9\<rparr>, l_m := new_match 3\<rparr>"

lemma busy_players: "players_ok (l_players busy_lobby)" "joined (l_players busy_lobby) = {1500}"
proof -
  obtain r p where a: "Add ''1500'' no_players = Some (r, p)" "players_ok p" using Add_ok [OF no_players_ok] by blast
  have i: "parse_id ''1500'' = 1500" by (simp add: go_eval)
  have "joined p = {1500}"
    using players_setD(3) [OF no_players_ok, of "''1500''" "''''" "''''" r p] a(1)
    by (simp add: Add_def i joined_def no_players_def)
  with a show "players_ok (l_players busy_lobby)" "joined (l_players busy_lobby) = {1500}"
    by (simp_all add: busy_lobby_def)
qed

theorem watcher_spares_players_witness:
  "fst (watcher_tick sample_lib 5 3 busy_lobby)
   \<and> l_reason (snd (snd (watcher_tick sample_lib 5 3 busy_lobby))) = Some ErrLobbyStopped"
proof -
  have n: "l_reason busy_lobby = None" by (simp add: busy_lobby_def)
  have b: "l_spec busy_lobby = zero_spec\<lparr>ForceStop := 9\<rparr>" "l_t1 busy_lobby = 0" "MatchID (l_m busy_lobby) = ''''"
    by (simp_all add: busy_lobby_def)
  have a: "ReasonAfter (Some (l_spec busy_lobby)) (l_t1 busy_lobby) x y = (True, Some ErrLobbyStopped)" for x y
    by (simp add: b ReasonAfter_def after_defs zero_spec_def)
  have "\<not> ForceDownAfter (Some (l_spec busy_lobby)) (l_t1 busy_lobby)" by (simp add: b after_defs zero_spec_def)
  then have "tick_reason 5 3 busy_lobby = Some ErrLobbyStopped"
    using a [of "idle_time 5 3 busy_lobby"] busy_players b by (simp add: tick_reason_def Let_def)
  then have t: "fst (watcher_tick sample_lib 5 3 busy_lobby)" using tick_reason_lobby(1) [OF busy_players(1) n] by simp
  have "\<not> (0 < AdminTimeout (l_opts busy_lobby) \<and> AdminTimeout (l_opts busy_lobby) < idle_time 5 3 busy_lobby)"
    using Round_nonneg [of "100 * Microsecond" "idle_from 5 3 busy_lobby"]
    by (simp add: idle_time_def idle_from_def busy_lobby_def sample_lobby_def fresh_lobby_def Sub_def zero_spec_def
        new_match_def Round_def trunc_rem_def lessThanHalf_def)
  then show ?thesis
    using watcher_spares_players [OF busy_players(1) _ n t] busy_players(2) a t by (auto simp: Let_def)
qed

lemma idle_time_close:
  assumes "0 \<le> l_clock l (l_reads l) - idle_from now lastup l" and "l_clock l (l_reads l) - idle_from now lastup l \<le> max_int64"
  shows "\<bar>idle_time now lastup l - (l_clock l (l_reads l) - idle_from now lastup l)\<bar> \<le> 50 * Microsecond"
  using Round_close [of "100 * Microsecond" "l_clock l (l_reads l) - idle_from now lastup l"]
    Sub_exact [of "l_clock l (l_reads l)" "idle_from now lastup l"] assms
  unfolding idle_time_def by simp

text \<open>C18. An empty lobby does not run for ever: a tick that comes more than the timeout, and the 100
  microseconds idle times are rounded to, after the lobby was last used, stops it, whatever the spec
  says, and closes the done channel; and if the spec asks for nothing, the timeout is the reason.\<close>

theorem empty_lobby_times_out:
  assumes "lobby_ok l" and "joined (l_players l) = {}" and "MatchID (l_m l) = ''''" and "l_reason l = None"
    and "l_done l = OpenChan" and "0 < Timeout (l_opts l)"
    and "Timeout (l_opts l) + 100 * Microsecond < l_clock l (l_reads l) - idle_from now lastup l"
    and "l_clock l (l_reads l) - idle_from now lastup l \<le> max_int64"
  shows "let (returned, _, l') = watcher_tick lb now lastup l in
    returned \<and> l_reason l' \<noteq> None \<and> l_done l' = ClosedChan
    \<and> (snd (ReasonAfter (Some (l_spec l)) (l_t1 l) (idle_time now lastup l) (MinUptime (l_opts l))) = None
        \<longrightarrow> l_reason l' = Some ErrLobbyTimeout)"
proof -
  have ok: "players_ok (l_players l)" using assms(1) by (simp add: lobby_ok_def)
  have "Timeout (l_opts l) < idle_time now lastup l" using idle_time_close [of l now lastup] assms(6-8) by linarith
  then have t: "tick_reason now lastup l = (if snd (ReasonAfter (Some (l_spec l)) (l_t1 l) (idle_time now lastup l) (MinUptime (l_opts l))) = None
      then Some ErrLobbyTimeout else snd (ReasonAfter (Some (l_spec l)) (l_t1 l) (idle_time now lastup l) (MinUptime (l_opts l))))"
    using assms(2,3,6) ForceDownAfter_reason [of "Some (l_spec l)" "l_t1 l" "idle_time now lastup l" "MinUptime (l_opts l)"]
    by (auto simp: tick_reason_def Let_def case_prod_unfold)
  then have n: "tick_reason now lastup l \<noteq> None"
    by (cases "snd (ReasonAfter (Some (l_spec l)) (l_t1 l) (idle_time now lastup l) (MinUptime (l_opts l)))") simp_all
  note r = tick_reason_lobby [OF ok assms(4), of lb now lastup]
  let ?l' = "snd (snd (watcher_tick lb now lastup l))"
  have "lobby_ok ?l'" using assms(1) by (rule watcher_tick_inv(1))
  moreover have "l_done ?l' \<noteq> NilChan"
    using watcher_tick_shape [of lb now lastup l] assms(5) by auto
  moreover have "l_reason ?l' = tick_reason now lastup l" "fst (watcher_tick lb now lastup l)" using r n by simp_all
  ultimately show ?thesis
    using t n by (auto simp: lobby_ok_def cancel_ok_def case_prod_unfold)
qed

definition old_lobby :: lobby where
  "old_lobby = sample_lobby\<lparr>l_clock := (\<lambda>n. 10 * Minute)\<rparr>"

theorem empty_lobby_times_out_witness:
  "let (returned, _, l') = watcher_tick sample_lib 0 0 old_lobby in
    returned \<and> l_reason l' = Some ErrLobbyTimeout \<and> l_done l' = ClosedChan"
proof -
  have "lobby_ok old_lobby" using sample_ok by (simp add: old_lobby_def lobby_ok_def cancel_ok_def)
  moreover have "idle_from 0 0 old_lobby = 0" by (simp add: idle_from_def old_lobby_def zero_spec_def)
  moreover have "snd (ReasonAfter (Some (l_spec old_lobby)) (l_t1 old_lobby) x y) = None" for x y
    by (simp add: old_lobby_def ReasonAfter_def after_defs zero_spec_def)
  ultimately show ?thesis
    using empty_lobby_times_out [of old_lobby 0 0 sample_lib]
    by (auto simp: old_lobby_def joined_def no_players_def)
qed



end
