(* ===== verification/LobbyAlloc.thy ===== *)
theory LobbyAlloc
  imports LobbyWatcher
begin

text \<open>
  \<open>alloc\<close> of \<open>internal/lobby/lobby.go\<close>: everything a run needs before it commits. \<open>host\<close> is what
  the operating system answers; \<open>held\<close> is what the process holds afterwards, the ends of the two
  pipes, the watch on the spec directory and the game's own log file. The closure \<open>done\<close> that
  \<open>alloc\<close> returns is \<open>alloc_done\<close> on these.
\<close>

datatype pipe_end = PROut | PWOut | PRErr | PWErr

record host =
  hs_lookpath :: "bytes \<Rightarrow> goerror + bytes"
  hs_pid :: int
  hs_pipe :: "nat \<Rightarrow> goerror option"
  hs_setpipesz :: "pipe_end \<Rightarrow> goerror option"
  hs_spec_watch :: "bytes \<Rightarrow> goerror + spec"
  hs_executable :: "goerror + bytes"
  hs_stat :: "bytes \<Rightarrow> bool"
  hs_environ :: "bytes list"

record held =
  h_pipes :: "pipe_end list"
  h_watch :: bool
  h_log :: bool

definition nothing_held :: held where
  "nothing_held = \<lparr>h_pipes = [], h_watch = False, h_log = False\<rparr>"

definition close_ends :: "pipe_end list \<Rightarrow> held \<Rightarrow> held" where
  "close_ends es h = h\<lparr>h_pipes := filter (\<lambda>e. e \<notin> set es) (h_pipes h)\<rparr>"

definition open_ends :: "pipe_end list \<Rightarrow> held \<Rightarrow> held" where
  "open_ends es h = h\<lparr>h_pipes := h_pipes h @ es\<rparr>"

abbreviation (input) "comma \<equiv> CHR 0x2C"

definition alloc_args :: "lobby_options \<Rightarrow> bytes list" where
  "alloc_args opts =
     (let session = ReplaceAll (Session opts) (CHR 0x20) nbsp;
          args = Split (Exe opts) comma @
            [''-nographics'', ''-batchmode'', ''--hitdetectionmode'', ''authoritative'', ''--roomname'', session];
          args = (if LogDir opts \<noteq> '''' then args @ [''-logMatchData''] else args);
          args = (if Password opts \<noteq> '''' then args @ [''--password'', Password opts] else args)
      in if Listen opts \<noteq> '''' then
           (let listen = Split (Listen opts) comma in
            if hd listen \<noteq> '''' then args @ [''--bind-address'', hd listen] else args)
         else args)"

definition alloc_pidfile :: "host \<Rightarrow> lobby \<Rightarrow> goerror option \<times> lobby" where
  "alloc_pidfile hs l =
     (let pidfile = Split (PidFile (l_opts l)) comma in
      if hd pidfile \<noteq> '''' then
        (case os_WriteFile (hd pidfile) (Itoa (hs_pid hs)) (l_disk l) of (e, d) \<Rightarrow> (e, l\<lparr>l_disk := d\<rparr>))
      else (None, l))"

text \<open>Lines 174 to 191: the two pipes, with a larger buffer; what was opened is closed on an error.\<close>

definition alloc_pipes :: "host \<Rightarrow> held \<Rightarrow> goerror option \<times> held" where
  "alloc_pipes hs h =
     (case hs_pipe hs 1 of Some e \<Rightarrow> (Some e, h)
      | None \<Rightarrow>
          let h = open_ends [PROut, PWOut] h in
          (case hs_setpipesz hs PWOut of Some e \<Rightarrow> (Some e, close_ends [PROut, PWOut] h)
           | None \<Rightarrow>
               (case hs_pipe hs 2 of Some e \<Rightarrow> (Some e, close_ends [PROut, PWOut] h)
                | None \<Rightarrow>
                    let h = open_ends [PRErr, PWErr] h in
                    (case hs_setpipesz hs PRErr of
                       Some e \<Rightarrow> (Some e, close_ends [PRErr, PWErr] (close_ends [PROut, PWOut] h))
                     | None \<Rightarrow> (None, h)))))"

definition alloc_spec :: "host \<Rightarrow> held \<Rightarrow> lobby \<Rightarrow> goerror option \<times> held \<times> lobby" where
  "alloc_spec hs h l =
     (if SpecDir (l_opts l) \<noteq> '''' then
        (case hs_spec_watch hs (SpecDir (l_opts l)) of
           Inl e \<Rightarrow> (Some e, close_ends [PRErr, PWErr] (close_ends [PROut, PWOut] h), l)
         | Inr s \<Rightarrow> (None, h\<lparr>h_watch := True\<rparr>, l\<lparr>l_spec := s\<rparr>))
      else (None, h, l))"

definition player_log :: "lobby \<Rightarrow> bytes" where
  "player_log l = PJoin [LogDir (l_opts l), ''Player.log'']"

definition alloc_log :: "held \<Rightarrow> lobby \<Rightarrow> goerror option \<times> held \<times> lobby" where
  "alloc_log h l =
     (if LogDir (l_opts l) \<noteq> '''' \<and> Debug (l_opts l) then
        (case os_Create (player_log l) (l_disk l) of
           (Some e, d) \<Rightarrow>
             (Some e, (close_ends [PRErr, PWErr] (close_ends [PROut, PWOut] h))\<lparr>h_watch := False\<rparr>, l\<lparr>l_disk := d\<rparr>)
         | (None, d) \<Rightarrow> (None, h\<lparr>h_log := True\<rparr>, l\<lparr>l_disk := d\<rparr>))
      else (None, h, l))"

definition alloc_env :: "host \<Rightarrow> lobby_options \<Rightarrow> bytes list" where
  "alloc_env hs opts =
     (case hs_executable hs of
        Inl _ \<Rightarrow> []
      | Inr self \<Rightarrow>
          let preload = self @ ''-preload.so'' in
          if \<not> hs_stat hs preload then []
          else
            let listen = Split (Listen opts) comma in
            if length listen \<noteq> 3 \<or> listen ! 0 = '''' \<or> listen ! 1 = '''' \<or> listen ! 2 = '''' then []
            else hs_environ hs @
              [''LD_PRELOAD='' @ preload, ''SNAPGS_LOBBY_LISTEN='' @ listen ! 0,
               ''SNAPGS_LOBBY_LISTEN1='' @ listen ! 1, ''SNAPGS_LOBBY_LISTEN2='' @ listen ! 2])"

text \<open>Lines 222 to 252, where the lobby commits to run.\<close>

definition alloc_commit :: "host \<Rightarrow> bytes list \<Rightarrow> lobby \<Rightarrow> lobby" where
  "alloc_commit hs args l =
     (let l = l\<lparr>l_done := OpenChan, l_session := ReplaceAll (Session (l_opts l)) (CHR 0x20) nbsp,
                l_players := no_players, l_reason := None, l_matches := [], l_matches_chan := OpenChan\<rparr>;
          (now, l) = time_now l;
          l = l\<lparr>l_m := new_match now\<rparr>;
          (now, l) = time_now l
      in l\<lparr>l_t1 := now, l_t2 := 0, l_proc := NotStarted, l_args := args, l_env := alloc_env hs (l_opts l)\<rparr>)"

definition alloc :: "host \<Rightarrow> lobby \<Rightarrow> goerror option \<times> held \<times> lobby" where
  "alloc hs l =
     (let args = alloc_args (l_opts l); h = nothing_held in
      case hs_lookpath hs (hd args) of
        Inl e \<Rightarrow> (Some e, h, l)
      | Inr exe \<Rightarrow>
          (case alloc_pidfile hs l of
             (Some e, l) \<Rightarrow> (Some e, h, l)
           | (None, l) \<Rightarrow>
               (case alloc_pipes hs h of
                  (Some e, h) \<Rightarrow> (Some e, h, l)
                | (None, h) \<Rightarrow>
                    (case alloc_spec hs h l of
                       (Some e, h, l) \<Rightarrow> (Some e, h, l)
                     | (None, h, l) \<Rightarrow>
                         (case alloc_log h l of
                            (Some e, h, l) \<Rightarrow> (Some e, h, l)
                          | (None, h, l) \<Rightarrow> (None, h, alloc_commit hs (exe # tl args) l))))))"

definition alloc_done :: "held \<Rightarrow> lobby \<Rightarrow> held \<times> lobby" where
  "alloc_done h l =
     (let (h, l) =
        (if h_log h then
           (h\<lparr>h_log := False\<rparr>,
            l\<lparr>l_disk := snd (os_Rename (player_log l) (PJoin [LogDir (l_opts l), ''Player-prev.log'']) (l_disk l))\<rparr>)
         else (h, l))
      in case time_now l of (now, l) \<Rightarrow> (h\<lparr>h_watch := False\<rparr>, l\<lparr>l_t2 := now\<rparr>))"

section \<open>What alloc leaves behind\<close>

lemma close_open [simp]:
  "close_ends [PRErr, PWErr] (close_ends [PROut, PWOut] (open_ends [PRErr, PWErr] (open_ends [PROut, PWOut] nothing_held))) = nothing_held"
  "close_ends [PROut, PWOut] (open_ends [PROut, PWOut] nothing_held) = nothing_held"
  "h_watch (open_ends es h) = h_watch h" "h_log (open_ends es h) = h_log h"
  by (simp_all add: close_ends_def open_ends_def nothing_held_def)

lemma alloc_pipes_held:
  "alloc_pipes hs nothing_held = (e, h) \<Longrightarrow>
     h = (if e = None then open_ends [PRErr, PWErr] (open_ends [PROut, PWOut] nothing_held) else nothing_held)"
  by (auto simp: alloc_pipes_def Let_def split: option.splits)

text \<open>What a step of \<open>alloc\<close> before the commit leaves alone, and that its failure releases all.\<close>

definition calm :: "lobby \<Rightarrow> lobby \<Rightarrow> bool" where
  "calm l l' \<longleftrightarrow> l_opts l' = l_opts l \<and> l_proc l' = l_proc l \<and> l_done l' = l_done l \<and> l_reason l' = l_reason l
    \<and> l_players l' = l_players l \<and> l_matches l' = l_matches l \<and> l_panic l' = l_panic l
    \<and> l_matches_chan l' = l_matches_chan l \<and> l_m l' = l_m l"

lemma calm_trans [trans]: "calm a b \<Longrightarrow> calm b c \<Longrightarrow> calm a c"
  by (simp add: calm_def)

abbreviation all_ends :: held where
  "all_ends \<equiv> open_ends [PRErr, PWErr] (open_ends [PROut, PWOut] nothing_held)"

lemma alloc_pidfile_calm: "alloc_pidfile hs l = (e, l') \<Longrightarrow> calm l l'"
  by (auto simp: alloc_pidfile_def calm_def Let_def split: prod.splits if_splits)

lemma alloc_spec_calm:
  "alloc_spec hs all_ends l = (e, h, l') \<Longrightarrow>
    calm l l' \<and> h = (if e = None then all_ends\<lparr>h_watch := h_watch h\<rparr> else nothing_held)"
  by (auto simp: alloc_spec_def calm_def open_ends_def nothing_held_def close_ends_def split: sum.splits if_splits)

lemma alloc_log_calm:
  "alloc_log (all_ends\<lparr>h_watch := w\<rparr>) l = (e, h, l') \<Longrightarrow>
    calm l l' \<and> (if e = None then h_pipes h = h_pipes all_ends else h = nothing_held)"
  by (auto simp: alloc_log_def calm_def close_ends_def nothing_held_def open_ends_def
      split: prod.splits option.splits if_splits)

lemma alloc_cases:
  assumes "alloc hs l = (e, h, l')"
  shows "\<exists>l1. calm l l1 \<and> (if e = None then h_pipes h = h_pipes all_ends \<and> (\<exists>args. l' = alloc_commit hs args l1)
     else h = nothing_held \<and> l' = l1)"
proof (cases "hs_lookpath hs (hd (alloc_args (l_opts l)))")
  case (Inl x)
  then show ?thesis using assms by (auto simp: alloc_def Let_def calm_def)
next
  case (Inr exe)
  obtain e1 l1 where 1: "alloc_pidfile hs l = (e1, l1)" by fastforce
  obtain e2 h2 where 2: "alloc_pipes hs nothing_held = (e2, h2)" by fastforce
  obtain e3 h3 l3 where 3: "alloc_spec hs h2 l1 = (e3, h3, l3)" by (metis prod_cases3)
  obtain e4 h4 l4 where 4: "alloc_log h3 l3 = (e4, h4, l4)" by (metis prod_cases3)
  note c1 = alloc_pidfile_calm [OF 1] and c2 = alloc_pipes_held [OF 2]
  show ?thesis
  proof (cases "e1 = None \<and> e2 = None \<and> e3 = None")
    case False
    have "calm l l3 \<and> h3 = nothing_held" if "e1 = None" "e2 = None" "e3 \<noteq> None"
      using that alloc_spec_calm [of hs l1 e3 h3 l3] 3 c1 c2 calm_trans by auto
    then have c3: "e1 = None \<Longrightarrow> e2 = None \<Longrightarrow> calm l l3 \<and> h3 = nothing_held" using False by auto
    have "alloc hs l = (if e1 \<noteq> None then (e1, nothing_held, l1) else if e2 \<noteq> None then (e2, h2, l1) else (e3, h3, l3))"
      using False by (cases e1; cases e2; cases e3; simp add: alloc_def Let_def Inr 1 2 3)
    then have eq: "(e, h, l') = (if e1 \<noteq> None then (e1, nothing_held, l1) else if e2 \<noteq> None then (e2, h2, l1) else (e3, h3, l3))"
      using assms by simp
    show ?thesis
    proof (cases "e1 = None \<and> e2 = None")
      case True
      with eq c3 False show ?thesis by (intro exI [of _ l3]) auto
    next
      case no: False
      with eq c1 c2 show ?thesis by (intro exI [of _ l1]) (cases e1; auto)
    qed
  next
    case True
    then have c3: "calm l1 l3" "h3 = all_ends\<lparr>h_watch := h_watch h3\<rparr>" using alloc_spec_calm [of hs l1 e3 h3 l3] 3 c2 by auto
    have c4: "calm l3 l4 \<and> (if e4 = None then h_pipes h4 = h_pipes all_ends else h4 = nothing_held)"
      using alloc_log_calm [of "h_watch h3" l3 e4 h4 l4] 4 c3(2) by simp
    have "calm l l4" using calm_trans [OF calm_trans [OF c1 c3(1)]] c4 by blast
    moreover have "alloc hs l = (if e4 \<noteq> None then (e4, h4, l4) else (None, h4, alloc_commit hs (exe # tl (alloc_args (l_opts l))) l4))"
      using True 1 2 3 by (cases e4; simp add: alloc_def Let_def Inr 4)
    then have "(e, h, l') = (if e4 \<noteq> None then (e4, h4, l4) else (None, h4, alloc_commit hs (exe # tl (alloc_args (l_opts l))) l4))"
      using assms by simp
    ultimately show ?thesis using c4 by (intro exI [of _ l4]) (cases e4; auto)
  qed
qed

lemma alloc_failed: "alloc hs l = (Some e, h, l') \<Longrightarrow> h = nothing_held \<and> calm l l'"
  using alloc_cases [of hs l "Some e" h l'] by auto

lemma alloc_commit_simps [simp]:
  "l_proc (alloc_commit hs args l) = NotStarted" "l_done (alloc_commit hs args l) = OpenChan"
  "l_matches_chan (alloc_commit hs args l) = OpenChan" "l_reason (alloc_commit hs args l) = None"
  "l_players (alloc_commit hs args l) = no_players" "l_matches (alloc_commit hs args l) = []"
  "l_opts (alloc_commit hs args l) = l_opts l" "l_panic (alloc_commit hs args l) = l_panic l"
  "MatchID (l_m (alloc_commit hs args l)) = ''''"
  "l_session (alloc_commit hs args l) = ReplaceAll (Session (l_opts l)) (CHR 0x20) nbsp"
  by (simp_all add: alloc_commit_def time_now_def Let_def)

lemma alloc_succeeded:
  assumes "alloc hs l = (None, h, l')"
  shows "set (h_pipes h) = {PROut, PWOut, PRErr, PWErr} \<and> l_proc l' = NotStarted \<and> l_done l' = OpenChan
    \<and> l_matches_chan l' = OpenChan \<and> l_reason l' = None \<and> l_players l' = no_players \<and> l_matches l' = []
    \<and> l_opts l' = l_opts l \<and> l_panic l' = l_panic l \<and> MatchID (l_m l') = ''''
    \<and> l_session l' = ReplaceAll (Session (l_opts l)) (CHR 0x20) nbsp"
proof -
  obtain l1 args where a: "calm l l1" "h_pipes h = h_pipes all_ends" "l' = alloc_commit hs args l1"
    using alloc_cases [OF assms] by auto
  have "set (h_pipes h) = {PROut, PWOut, PRErr, PWErr}"
    unfolding a(2) by (simp add: open_ends_def nothing_held_def insert_commute)
  with a(1,3) show ?thesis by (simp add: calm_def)
qed

end
