(* ===== verification/LobbySystem.thy ===== *)
theory LobbySystem
  imports LobbyAlloc
begin

text \<open>
  \<open>runc\<close> of \<open>internal/lobby/lobby.go\<close> and the goroutines it starts: two scanners, two collectors and
  the watcher, which share the lobby with the goroutine that waits for the game. \<open>sys\<close> says how far
  each has got. A step is one handler of one goroutine, and the order of steps is any order: the
  theorems hold for every interleaving of handlers. \<open>Exit\<close> is the game's exit with all that the
  waiting goroutine does up to \<open>wg.Wait\<close>, and \<open>Finish\<close> is what it does after.
\<close>

datatype phase = Waiting | Draining | Stopped

text \<open>The phases are in the order a run goes through them.\<close>

fun phase_rank :: "phase \<Rightarrow> nat" where
  "phase_rank Waiting = 0"
| "phase_rank Draining = 1"
| "phase_rank Stopped = 2"

lemma phase_rank_inj: "phase_rank p = phase_rank q \<Longrightarrow> p = q"
  by (cases p; cases q) simp_all

instantiation phase :: linorder
begin

definition less_eq_phase :: "phase \<Rightarrow> phase \<Rightarrow> bool" where
  "less_eq_phase p q \<longleftrightarrow> phase_rank p \<le> phase_rank q"

definition less_phase :: "phase \<Rightarrow> phase \<Rightarrow> bool" where
  "less_phase p q \<longleftrightarrow> phase_rank p < phase_rank q"

instance
  by standard (auto simp: less_eq_phase_def less_phase_def intro: phase_rank_inj)

end

lemma phase_order [simp]: "Waiting \<le> p" "p \<le> Stopped" "Draining \<le> p \<longleftrightarrow> p \<noteq> Waiting"
  by (cases p; simp add: less_eq_phase_def)+

record sys =
  s_lobby :: lobby
  s_held :: held
  s_phase :: phase
  s_result :: "goerror option"
  s_out :: bool
  s_err :: bool
  s_colls :: nat
  s_watch :: "time option"

text \<open>The deferred calls of \<open>runc\<close> before \<open>wg.Wait\<close>, with the error to be returned.\<close>

definition drain :: "lib \<Rightarrow> goerror option \<Rightarrow> sys \<Rightarrow> sys" where
  "drain lb r s =
     s\<lparr>s_phase := Draining, s_result := r, s_lobby := cancel lb ErrLobbyDone (s_lobby s),
       s_held := close_ends [PWErr] (close_ends [PWOut] (s_held s))\<rparr>"

definition runc_begin :: "lib \<Rightarrow> held \<Rightarrow> (goerror + int) \<Rightarrow> lobby \<Rightarrow> sys" where
  "runc_begin lb h start l =
     (let l = snd (remstats lb [] l);
          s = \<lparr>s_lobby = l, s_held = h, s_phase = Waiting, s_result = None, s_out = True, s_err = True,
               s_colls = (if LogDir (l_opts l) = '''' then 0 else 2),
               s_watch = (if watch_enabled (l_opts l) then Some (Timestamp (l_m l)) else None)\<rparr>;
          l = snd (setstat lb ''session'' (Some (SString (l_session l))) l)
      in case start of
           Inl e \<Rightarrow> (case Cancel lb (Some e) l of (r, l) \<Rightarrow> drain lb r (s\<lparr>s_lobby := l\<rparr>))
         | Inr pid \<Rightarrow> s\<lparr>s_lobby := snd (newstat lb ''up'' (l\<lparr>l_proc := Running pid\<rparr>))\<rparr>)"

definition runc_start :: "lib \<Rightarrow> host \<Rightarrow> (goerror + int) \<Rightarrow> lobby \<Rightarrow> sys" where
  "runc_start lb hs start l =
     (case alloc hs l of
        (Some e, h, l) \<Rightarrow>
          (case Cancel lb (Some e) l of (r, l) \<Rightarrow>
             \<lparr>s_lobby = l, s_held = h, s_phase = Stopped, s_result = r, s_out = False, s_err = False,
              s_colls = 0, s_watch = None\<rparr>)
      | (None, h, l) \<Rightarrow> runc_begin lb h start l)"

text \<open>The game exits and \<open>Wait\<close> returns \<open>werr\<close>.\<close>

definition game_exit :: "lib \<Rightarrow> int \<Rightarrow> goerror option \<Rightarrow> sys \<Rightarrow> sys" where
  "game_exit lb pid werr s =
     (case Cancel lb werr ((s_lobby s)\<lparr>l_proc := Exited pid\<rparr>) of
        (r, l) \<Rightarrow> drain lb r (s\<lparr>s_lobby := snd (remstat lb ''up'' l)\<rparr>))"

definition finish :: "lib \<Rightarrow> sys \<Rightarrow> sys" where
  "finish lb s =
     (case alloc_done (s_held s) (snd (remstats lb [] (s_lobby s))) of
        (h, l) \<Rightarrow> s\<lparr>s_phase := Stopped, s_lobby := l, s_held := h\<rparr>)"

inductive lstep :: "lib \<Rightarrow> sys \<Rightarrow> sys \<Rightarrow> bool" for lb where
  OutLine: "s_out s \<Longrightarrow> lstep lb s (s\<lparr>s_lobby := scan_line lb 1 line (s_lobby s)\<rparr>)"
| OutEnd: "s_out s \<Longrightarrow> lstep lb s (s\<lparr>s_lobby := scanner_end lb 1 (s_lobby s), s_out := False,
    s_held := close_ends [PROut] (s_held s)\<rparr>)"
| ErrLine: "s_err s \<Longrightarrow> lstep lb s (s\<lparr>s_lobby := scan_line lb 2 line (s_lobby s)\<rparr>)"
| ErrEnd: "s_err s \<Longrightarrow> lstep lb s (s\<lparr>s_lobby := scanner_end lb 2 (s_lobby s), s_err := False,
    s_held := close_ends [PRErr] (s_held s)\<rparr>)"
| Collect: "0 < s_colls s \<Longrightarrow> l_matches (s_lobby s) = m # ms \<Longrightarrow>
    lstep lb s (s\<lparr>s_lobby := collector_step lb m ((s_lobby s)\<lparr>l_matches := ms\<rparr>)\<rparr>)"
| CollEnd: "0 < s_colls s \<Longrightarrow> l_matches (s_lobby s) = [] \<Longrightarrow> l_matches_chan (s_lobby s) = ClosedChan \<Longrightarrow>
    lstep lb s (s\<lparr>s_lobby := cancel lb ErrLobbyDone (s_lobby s), s_colls := s_colls s - 1\<rparr>)"
| Tick: "s_watch s = Some lastup \<Longrightarrow> watcher_tick lb now lastup (s_lobby s) = (False, lastup', l) \<Longrightarrow>
    lstep lb s (s\<lparr>s_lobby := l, s_watch := Some lastup'\<rparr>)"
| TickStop: "s_watch s = Some lastup \<Longrightarrow> watcher_tick lb now lastup (s_lobby s) = (True, lastup', l) \<Longrightarrow>
    lstep lb s (s\<lparr>s_lobby := cancel lb ErrLobbyDone l, s_watch := None\<rparr>)"
| WatchDone: "s_watch s = Some lastup \<Longrightarrow> l_done (s_lobby s) = ClosedChan \<Longrightarrow>
    lstep lb s (s\<lparr>s_lobby := cancel lb ErrLobbyDone (s_lobby s), s_watch := None\<rparr>)"
| SpecUpdate: "h_watch (s_held s) \<Longrightarrow> s_phase s \<noteq> Stopped \<Longrightarrow> lstep lb s (s\<lparr>s_lobby := (s_lobby s)\<lparr>l_spec := sp\<rparr>\<rparr>)"
| Exit: "s_phase s = Waiting \<Longrightarrow> l_proc (s_lobby s) = Running pid \<Longrightarrow> lstep lb s (game_exit lb pid werr s)"
| Finish: "s_phase s = Draining \<Longrightarrow> \<not> s_out s \<Longrightarrow> \<not> s_err s \<Longrightarrow> s_colls s = 0 \<Longrightarrow> s_watch s = None \<Longrightarrow>
    lstep lb s (finish lb s)"

inductive lsteps :: "lib \<Rightarrow> sys \<Rightarrow> sys \<Rightarrow> bool" for lb where
  done_here: "lsteps lb s s"
| one_more: "lsteps lb s t \<Longrightarrow> lstep lb t u \<Longrightarrow> lsteps lb s u"

lemmas lstep_intros [intro] = lstep.intros

lemma lsteps_trans: "lsteps lb s t \<Longrightarrow> lsteps lb t u \<Longrightarrow> lsteps lb s u"
  by (rotate_tac 1, induction rule: lsteps.induct) (auto intro: lsteps.intros)

lemma lsteps_one: "lstep lb s t \<Longrightarrow> lsteps lb s t"
  by (blast intro: lsteps.intros)

section \<open>Invariant\<close>

definition sys_ok :: "sys \<Rightarrow> bool" where
  "sys_ok s \<longleftrightarrow> lobby_ok (s_lobby s)
     \<and> (s_out s \<longrightarrow> l_matches_chan (s_lobby s) = OpenChan)
     \<and> (s_phase s \<noteq> Stopped \<longrightarrow> l_done (s_lobby s) \<noteq> NilChan
          \<and> l_matches_chan (s_lobby s) = (if s_out s then OpenChan else ClosedChan))
     \<and> (s_phase s = Waiting \<longrightarrow> (\<exists>pid. l_proc (s_lobby s) = Running pid))
     \<and> (s_phase s = Draining \<longrightarrow> l_reason (s_lobby s) \<noteq> None)
     \<and> (s_phase s = Stopped \<longrightarrow> \<not> s_out s \<and> \<not> s_err s \<and> s_colls s = 0 \<and> s_watch s = None \<and> s_held s = nothing_held)
     \<and> (s_phase s \<noteq> Stopped \<longrightarrow> set (h_pipes (s_held s)) =
          (if s_out s then {PROut} else {}) \<union> (if s_err s then {PRErr} else {})
          \<union> (if s_phase s = Waiting then {PWOut, PWErr} else {}))
     \<and> (s_phase s = Draining \<longrightarrow> settled (s_result s) = 2 \<longrightarrow> l_reason (s_lobby s) = s_result s)"

lemma settled_le: "settled r \<le> 2"
  by (rule settled_Some(3))

lemma reason_keeps: "reason_step r r' \<Longrightarrow> r \<noteq> None \<Longrightarrow> r' \<noteq> None"
  "reason_step r r' \<Longrightarrow> settled r = 2 \<Longrightarrow> r' = r"
  using settled_le [of r'] by (cases r; cases r'; auto simp: reason_step_def split: if_splits)+

text \<open>A handler that keeps the contract keeps the invariant.\<close>

lemma sys_move:
  assumes "sys_ok s" and "lobby_ok l'" and "legal (s_lobby s) l'"
  shows "sys_ok (s\<lparr>s_lobby := l'\<rparr>)"
proof -
  have f: "l_matches_chan l' = l_matches_chan (s_lobby s)" "l_done l' = NilChan \<longleftrightarrow> l_done (s_lobby s) = NilChan"
    "l_proc l' = l_proc (s_lobby s)" "reason_step (l_reason (s_lobby s)) (l_reason l')"
    using assms(3) by (simp_all add: legal_def)
  have "l_reason (s_lobby s) \<noteq> None \<longrightarrow> l_reason l' \<noteq> None" using reason_keeps(1) [OF f(4)] by blast
  moreover have "settled (s_result s) = 2 \<longrightarrow> l_reason (s_lobby s) = s_result s \<longrightarrow> l_reason l' = s_result s"
    using reason_keeps(2) [OF f(4)] by auto
  ultimately show ?thesis using assms(1,2) f(1-3) unfolding sys_ok_def by simp
qed

lemma sys_watch: "sys_ok s \<Longrightarrow> s_watch s \<noteq> None \<Longrightarrow> sys_ok (s\<lparr>s_watch := w\<rparr>)"
  by (auto simp: sys_ok_def)

lemma sys_colls: "sys_ok s \<Longrightarrow> n \<le> s_colls s \<Longrightarrow> sys_ok (s\<lparr>s_colls := n\<rparr>)"
  by (auto simp: sys_ok_def)

lemma sys_err: "sys_ok s \<Longrightarrow> s_err s \<Longrightarrow> sys_ok (s\<lparr>s_err := False, s_held := close_ends [PRErr] (s_held s)\<rparr>)"
  by (auto simp: sys_ok_def close_ends_def)

lemma close_matches_ok: "lobby_ok l \<Longrightarrow> l_matches_chan l = OpenChan \<Longrightarrow> lobby_ok (close_matches l)"
  using ok_cong [of "close_matches l" l] by (simp add: close_matches_def)

lemma sys_out:
  "sys_ok s \<Longrightarrow> s_out s \<Longrightarrow>
    sys_ok (s\<lparr>s_lobby := close_matches (s_lobby s), s_out := False, s_held := close_ends [PROut] (s_held s)\<rparr>)"
proof -
  assume s: "sys_ok s" "s_out s"
  then have c: "l_matches_chan (s_lobby s) = OpenChan" "lobby_ok (s_lobby s)" by (simp_all add: sys_ok_def)
  from close_matches_ok [OF c(2,1)] s c(1) show ?thesis
    by (auto simp: sys_ok_def close_ends_def close_matches_def)
qed

lemma sys_spec: "sys_ok s \<Longrightarrow> sys_ok (s\<lparr>s_lobby := (s_lobby s)\<lparr>l_spec := sp\<rparr>\<rparr>)"
  using ok_cong [of "(s_lobby s)\<lparr>l_spec := sp\<rparr>" "s_lobby s"] by (simp add: sys_ok_def)

lemma sys_ok_lobby: "sys_ok s \<Longrightarrow> lobby_ok (s_lobby s)"
  by (simp add: sys_ok_def)

lemma sys_cancel: "sys_ok s \<Longrightarrow> sys_ok (s\<lparr>s_lobby := snd (Cancel lb r (s_lobby s))\<rparr>)"
  by (rule sys_move) (simp_all add: cancel_inv sys_ok_lobby)

lemma Cancel_result:
  assumes "Cancel lb r l = (e, l')" and "settled e = 2"
  shows "l_reason l' = e"
proof (cases r)
  case None
  with assms show ?thesis by (auto simp: Cancel_def)
next
  case (Some x)
  then have "e = (if settled (l_reason l) = 2 then l_reason l else if x = ErrLobbyDone then None else Some x)"
    "l_reason l' = (if settled (l_reason l) = 2 then l_reason l else Some x)"
    using assms(1) Cancel_returns [of lb x l] Cancel_reason [of lb "Some x" l] by simp_all
  with assms(2) show ?thesis by (auto split: if_splits)
qed

lemma Cancel_keep: "settled (l_reason l) = 2 \<Longrightarrow> l_reason (snd (Cancel lb r l)) = l_reason l"
  by (simp add: Cancel_reason)

lemma Cancel_settled: "settled (l_reason l) = 2 \<Longrightarrow> fst (Cancel lb r l) = l_reason l"
  by (cases r) (simp_all add: Cancel_returns, simp add: Cancel_def)

lemma sys_drain:
  assumes "sys_ok s" and "s_phase s = Waiting" and "lobby_ok l" and "l_matches_chan l = l_matches_chan (s_lobby s)"
    and "l_done l \<noteq> NilChan" and "settled r = 2 \<Longrightarrow> l_reason l = r"
  shows "sys_ok (drain lb r (s\<lparr>s_lobby := l\<rparr>))"
proof -
  have "settled r = 2 \<Longrightarrow> l_reason (cancel lb ErrLobbyDone l) = r" using assms(6) Cancel_keep by metis
  moreover have "lobby_ok (cancel lb ErrLobbyDone l)" using assms(3) by (rule cancel_inv(1))
  moreover have "l_reason (cancel lb ErrLobbyDone l) \<noteq> None" by (rule Cancel_settles)
  ultimately show ?thesis using assms(1,2,4,5)
    by (auto simp: sys_ok_def drain_def close_ends_def)
qed

lemma sys_exit:
  assumes "sys_ok s" and "s_phase s = Waiting"
  shows "sys_ok (game_exit lb pid werr s)"
proof -
  let ?l = "(s_lobby s)\<lparr>l_proc := Exited pid\<rparr>"
  obtain r l where c: "Cancel lb werr ?l = (r, l)" by fastforce
  have "lobby_ok ?l" using sys_ok_lobby [OF assms(1)] ok_cong [of ?l "s_lobby s"] by simp
  then have ok: "lobby_ok l" using cancel_inv(1) [of ?l lb werr] c by simp
  have "l_done ?l \<noteq> NilChan" using assms by (simp add: sys_ok_def)
  then have d: "l_done l \<noteq> NilChan" using Cancel_open [of lb werr ?l] c by simp
  have m: "l_matches_chan l = l_matches_chan (s_lobby s)" using Cancel_frame(9) [of lb werr ?l] c by simp
  have "sys_ok (drain lb r (s\<lparr>s_lobby := snd (remstat lb ''up'' l)\<rparr>))"
    using ok d m Cancel_result [OF c] by (intro sys_drain assms) (simp_all add: inv_rules)
  then show ?thesis by (simp add: game_exit_def c)
qed

lemma rem_all_shape: "\<exists>d. snd (rem_all lb ns l) = l\<lparr>l_disk := d\<rparr>"
proof (induction ns arbitrary: l)
  case Nil
  show ?case by (rule exI [of _ "l_disk l"]) simp
next
  case (Cons n ns)
  obtain d1 where 1: "snd (setstat lb n None l) = l\<lparr>l_disk := d1\<rparr>" using setstat_shape by blast
  obtain d2 where 2: "snd (rem_all lb ns (l\<lparr>l_disk := d1\<rparr>)) = (l\<lparr>l_disk := d1\<rparr>)\<lparr>l_disk := d2\<rparr>" using Cons.IH by blast
  show ?case using 1 2 by (auto simp: case_prod_unfold split: option.split)
qed

lemma remstats_shape: "\<exists>d. snd (remstats lb ns l) = l\<lparr>l_disk := d\<rparr>"
proof -
  obtain d where "snd (rem_all lb ns l) = l\<lparr>l_disk := d\<rparr>" using rem_all_shape by blast
  moreover have "\<exists>d'. snd (rem_all lb ms (l\<lparr>l_disk := d\<rparr>)) = l\<lparr>l_disk := d'\<rparr>" for ms d
    using rem_all_shape [of lb ms "l\<lparr>l_disk := d\<rparr>"] by auto
  ultimately show ?thesis
    unfolding remstats_def by (auto simp: case_prod_unfold split: option.split)
qed

lemma sys_finish:
  assumes "sys_ok s" and "s_phase s = Draining" and "\<not> s_out s" and "\<not> s_err s" and "s_colls s = 0" and "s_watch s = None"
  shows "sys_ok (finish lb s)"
proof -
  obtain d where d: "snd (remstats lb [] (s_lobby s)) = (s_lobby s)\<lparr>l_disk := d\<rparr>" using remstats_shape by blast
  obtain h l where a: "alloc_done (s_held s) ((s_lobby s)\<lparr>l_disk := d\<rparr>) = (h, l)" by fastforce
  have "h_pipes (s_held s) = []" using assms by (simp add: sys_ok_def)
  then have "h = nothing_held" using a
    by (cases "s_held s") (auto simp: alloc_done_def nothing_held_def Let_def time_now_def split: if_splits prod.splits)
  moreover have "lobby_ok l"
    using ok_cong [of l "s_lobby s"] sys_ok_lobby [OF assms(1)] a
    by (auto simp: alloc_done_def Let_def time_now_def split: if_splits prod.splits)
  ultimately show ?thesis using assms(3-6) by (simp add: finish_def d a sys_ok_def)
qed

lemma sys_step: "lstep lb s t \<Longrightarrow> sys_ok s \<Longrightarrow> sys_ok t"
proof (induction rule: lstep.induct)
  case (OutLine s line)
  then have "lobby_ok (s_lobby s)" "l_matches_chan (s_lobby s) = OpenChan" by (simp_all add: sys_ok_def)
  with OutLine scan_handler.step_ok scan_handler.step_legal show ?case by (intro sys_move) blast+
next
  case (OutEnd s)
  let ?l = "collect lb (s_lobby s)"
  have c: "lobby_ok (s_lobby s)" "l_matches_chan (s_lobby s) = OpenChan" using OutEnd by (simp_all add: sys_ok_def)
  then have 1: "sys_ok (s\<lparr>s_lobby := ?l\<rparr>)" using OutEnd by (intro sys_move collect_inv)
  from sys_cancel [OF sys_out [OF 1], of lb "Some ErrLobbyDone"] OutEnd show ?case
    by (cases s) (simp add: scanner_end_def)
next
  case (ErrLine s line)
  have "scan_line lb 2 line (s_lobby s) = (s_lobby s)\<lparr>l_out := l_out (s_lobby s) @
     map (Pair 2) (filter (\<lambda>bs. \<not> ignored stderrIgnorePrefixes stderrIgnoreContains (TrimSpace bs)) [line])\<rparr>"
    using stderr_copied [of lb "[line]" "s_lobby s"] by simp
  then show ?case using ErrLine sys_ok_lobby by (intro sys_move) (simp_all add: update_inv)
next
  case (ErrEnd s)
  from sys_err [OF sys_cancel [OF ErrEnd(2), of lb "Some ErrLobbyDone"]] ErrEnd(1) show ?case by (simp add: scanner_end_def)
next
  case (Collect s m ms)
  let ?l = "(s_lobby s)\<lparr>l_matches := ms\<rparr>"
  have "lobby_ok ?l" using sys_ok_lobby [OF Collect(3)] Collect(2) by (auto simp: lobby_ok_def cancel_ok_def queue_ok_def)
  moreover have "legal (s_lobby s) ?l" by (simp add: legal_def)
  ultimately show ?case using Collect(3) collector_step_inv legal_trans by (intro sys_move) blast+
next
  case (CollEnd s)
  from sys_colls [OF sys_cancel [OF CollEnd(4), of lb "Some ErrLobbyDone"], of "s_colls s - 1"] show ?case by simp
next
  case (Tick s lastup now lastup' l)
  then have "lobby_ok l" "legal (s_lobby s) l"
    using watcher_tick_inv [of "s_lobby s" lb now lastup] sys_ok_lobby by simp_all
  with Tick have "sys_ok (s\<lparr>s_lobby := l\<rparr>)" by (intro sys_move)
  from sys_watch [OF this, of "Some lastup'"] Tick(1) show ?case by simp
next
  case (TickStop s lastup now lastup' l)
  then have "lobby_ok l" "legal (s_lobby s) l"
    using watcher_tick_inv [of "s_lobby s" lb now lastup] sys_ok_lobby by simp_all
  with TickStop have "sys_ok (s\<lparr>s_lobby := l\<rparr>)" by (intro sys_move)
  from sys_watch [OF sys_cancel [OF this, of lb "Some ErrLobbyDone"], of None] TickStop(1) show ?case by simp
next
  case (WatchDone s lastup)
  from sys_watch [OF sys_cancel [OF WatchDone(3), of lb "Some ErrLobbyDone"], of None] WatchDone(1) show ?case by simp
next
  case (SpecUpdate s sp)
  then show ?case by (intro sys_spec)
next
  case (Exit s pid werr)
  then show ?case by (intro sys_exit)
next
  case (Finish s)
  then show ?case by (intro sys_finish)
qed

lemma sys_steps: "lsteps lb s t \<Longrightarrow> sys_ok s \<Longrightarrow> sys_ok t"
  by (induction rule: lsteps.induct) (auto dest: sys_step)

section \<open>The start of a run\<close>

lemma begin_ok:
  assumes "lobby_ok l" and "l_done l = OpenChan" and "l_matches_chan l = OpenChan"
    and "set (h_pipes h) = {PROut, PWOut, PRErr, PWErr}"
  shows "sys_ok (runc_begin lb h start l)"
proof -
  obtain d where d: "snd (remstats lb [] l) = l\<lparr>l_disk := d\<rparr>" using remstats_shape by blast
  define l1 where "l1 = snd (setstat lb ''session'' (Some (SString (l_session l))) (l\<lparr>l_disk := d\<rparr>))"
  have l1: "lobby_ok l1" "l_done l1 = OpenChan" "l_matches_chan l1 = OpenChan"
    using assms by (simp_all add: l1_def inv_rules)
  define s where "s = (\<lambda>l'. \<lparr>s_lobby = l', s_held = h, s_phase = Waiting, s_result = None, s_out = True, s_err = True,
       s_colls = (if LogDir (l_opts l) = '''' then 0 else 2),
       s_watch = (if watch_enabled (l_opts l) then Some (Timestamp (l_m l)) else None)\<rparr>)"
  have run: "lobby_ok (l1\<lparr>l_proc := Running pid\<rparr>)" for pid
    using l1(1) ok_cong [of "l1\<lparr>l_proc := Running pid\<rparr>" l1] by simp
  have w: "sys_ok (s l')" if "lobby_ok l'" "l_done l' = OpenChan" "l_matches_chan l' = OpenChan" "l_proc l' = Running pid" for l' pid
    using that assms(4) by (auto simp: sys_ok_def s_def)
  show ?thesis
  proof (cases start)
    case (Inl e)
    obtain r l2 where c: "Cancel lb (Some e) l1 = (r, l2)" by fastforce
    have l2: "lobby_ok l2" "l_matches_chan l2 = OpenChan" "l_done l2 \<noteq> NilChan"
      using cancel_inv(1) [OF l1(1), of lb "Some e"] Cancel_frame(9) [of lb "Some e" l1] Cancel_open [of lb "Some e" l1] l1 c by simp_all
    have "sys_ok (drain lb r ((s (l1\<lparr>l_proc := Running 1\<rparr>))\<lparr>s_lobby := l2\<rparr>))"
      using w [OF run, of 1 1] l1 l2 Cancel_result [OF c] by (intro sys_drain) (simp_all add: s_def)
    moreover have "(s (l1\<lparr>l_proc := Running 1\<rparr>))\<lparr>s_lobby := l2\<rparr> = s l2" by (simp add: s_def)
    moreover have "runc_begin lb h start l = drain lb r (s l2)"
      using Inl c by (simp add: runc_begin_def Let_def d s_def l1_def [symmetric])
    ultimately show ?thesis by simp
  next
    case (Inr pid)
    have "sys_ok (s (snd (newstat lb ''up'' (l1\<lparr>l_proc := Running pid\<rparr>))))"
      using run [of pid] l1 by (intro w) (simp_all add: inv_rules)
    moreover have "runc_begin lb h start l = s (snd (newstat lb ''up'' (l1\<lparr>l_proc := Running pid\<rparr>)))"
      using Inr by (simp add: runc_begin_def Let_def d s_def l1_def [symmetric])
    ultimately show ?thesis by simp
  qed
qed

lemma start_ok:
  assumes "lobby_ok l"
  shows "sys_ok (runc_start lb hs start l)"
proof -
  obtain e h l' where a: "alloc hs l = (e, h, l')" by (metis prod_cases3)
  show ?thesis
  proof (cases e)
    case None
    have s: "set (h_pipes h) = {PROut, PWOut, PRErr, PWErr}" "l_done l' = OpenChan" "l_matches_chan l' = OpenChan"
      "l_reason l' = None" "l_players l' = no_players" "l_matches l' = []" "l_panic l' = l_panic l"
      using alloc_succeeded [of hs l h l'] a None by simp_all
    then have "lobby_ok l'" using assms by (simp add: lobby_ok_def cancel_ok_def queue_ok_def)
    with s begin_ok show ?thesis by (simp add: runc_start_def a None)
  next
    case (Some x)
    then have h: "h = nothing_held" "calm l l'" using alloc_failed a by simp_all
    then have "lobby_ok l'" using assms ok_cong [of l' l] by (simp add: calm_def)
    then have "lobby_ok (snd (Cancel lb (Some x) l'))" by (rule cancel_inv(1))
    with h(1) show ?thesis by (simp add: runc_start_def a Some sys_ok_def case_prod_unfold)
  qed
qed

lemma fresh_ok: "lobby_ok (fresh_lobby opts d clk)"
  by (simp add: lobby_ok_def cancel_ok_def queue_ok_def fresh_lobby_def)

section \<open>Shutting down\<close>

lemma legal_reason: "legal l l' \<Longrightarrow> reason_step (l_reason l) (l_reason l')"
  by (simp add: legal_def)

lemma scanner_end_reason: "reason_step (l_reason l) (l_reason (scanner_end lb fd l))"
proof -
  have "l_reason (if fd = 1 then close_matches (collect lb l) else l) = l_reason l" by (simp add: close_matches_def)
  then show ?thesis using Cancel_reason_step unfolding scanner_end_def by metis
qed

lemma finish_reason: "l_reason (s_lobby (finish lb s)) = l_reason (s_lobby s)"
proof -
  obtain d where "snd (remstats lb [] (s_lobby s)) = (s_lobby s)\<lparr>l_disk := d\<rparr>" using remstats_shape by blast
  then show ?thesis by (simp add: finish_def alloc_done_def time_now_def case_prod_unfold Let_def)
qed

lemma step_reason: "lstep lb s t \<Longrightarrow> sys_ok s \<Longrightarrow> reason_step (l_reason (s_lobby s)) (l_reason (s_lobby t))"
proof (induction rule: lstep.induct)
  case (OutLine s line)
  then have "lobby_ok (s_lobby s)" "l_matches_chan (s_lobby s) = OpenChan" by (simp_all add: sys_ok_def)
  with scan_handler.step_legal legal_reason show ?case by simp
next
  case (ErrLine s line)
  have "l_reason (fold (scan_line lb 2) [line] (s_lobby s)) = l_reason (s_lobby s)" by (subst stderr_copied) simp
  then show ?case by simp
next
  case (Collect s m ms)
  have "legal ((s_lobby s)\<lparr>l_matches := ms\<rparr>) (collector_step lb m ((s_lobby s)\<lparr>l_matches := ms\<rparr>))" by (rule collector_step_inv(2))
  from legal_reason [OF this] show ?case by simp
next
  case (Tick s lastup now lastup' l)
  then show ?case using legal_reason [OF watcher_tick_inv(2) [of "s_lobby s" lb now lastup]] by simp
next
  case (TickStop s lastup now lastup' l)
  then have "reason_step (l_reason (s_lobby s)) (l_reason l)"
    using legal_reason [OF watcher_tick_inv(2) [of "s_lobby s" lb now lastup]] by simp
  then show ?case using reason_step_trans [OF _ Cancel_reason_step] by simp
next
  case (Exit s pid werr)
  let ?l = "snd (Cancel lb werr ((s_lobby s)\<lparr>l_proc := Exited pid\<rparr>))"
  have "reason_step (l_reason (s_lobby s)) (l_reason ?l)"
    using Cancel_reason_step [of "(s_lobby s)\<lparr>l_proc := Exited pid\<rparr>" lb werr] by simp
  moreover have "reason_step (l_reason ?l) (l_reason (cancel lb ErrLobbyDone (snd (remstat lb ''up'' ?l))))"
    using Cancel_reason_step [of "snd (remstat lb ''up'' ?l)" lb "Some ErrLobbyDone"] by simp
  ultimately show ?case by (simp add: game_exit_def drain_def case_prod_unfold reason_step_trans)
qed (simp_all add: scanner_end_reason finish_reason)

lemma steps_reason:
  "lsteps lb s t \<Longrightarrow> sys_ok s \<Longrightarrow> reason_step (l_reason (s_lobby s)) (l_reason (s_lobby t))"
  by (induction rule: lsteps.induct) (auto intro: reason_step_trans step_reason sys_steps)

text \<open>Which results a step can set: only the exit of the game sets one, and a lobby that has a real
  reason by then returns it.\<close>

inductive_cases lstepE: "lstep lb s t"

lemma step_result:
  assumes "lstep lb s t" and "sys_ok s"
  shows "s_phase s \<noteq> Waiting \<longrightarrow> s_phase t \<noteq> Waiting \<and> s_result t = s_result s"
    and "s_phase s = Waiting \<and> s_phase t \<noteq> Waiting \<and> settled (l_reason (s_lobby s)) = 2 \<longrightarrow> s_result t = l_reason (s_lobby s)"
proof -
  have d: "s_phase (drain lb r s') = Draining" "s_result (drain lb r s') = r" for r s' by (simp_all add: drain_def)
  have e: "s_phase (game_exit lb pid werr s) \<noteq> Waiting" for pid werr
    by (simp add: game_exit_def case_prod_unfold d)
  have f: "s_phase (finish lb s) = Stopped" "s_result (finish lb s) = s_result s"
    by (simp_all add: finish_def case_prod_unfold)
  have g: "s_result (game_exit lb pid werr s) = l_reason (s_lobby s)" if "settled (l_reason (s_lobby s)) = 2" for pid werr
    using that by (simp add: game_exit_def case_prod_unfold d Cancel_settled)
  show "s_phase s \<noteq> Waiting \<longrightarrow> s_phase t \<noteq> Waiting \<and> s_result t = s_result s"
    by (rule lstepE [OF assms(1)]; hypsubst) (simp_all add: f)
  show "s_phase s = Waiting \<and> s_phase t \<noteq> Waiting \<and> settled (l_reason (s_lobby s)) = 2 \<longrightarrow> s_result t = l_reason (s_lobby s)"
    by (rule lstepE [OF assms(1)]; hypsubst) (auto simp: f g)
qed

text \<open>A run only goes forward, and lets go of what it holds as it does.\<close>

lemma step_forward:
  assumes "lstep lb s t"
  shows "s_phase s \<le> s_phase t \<and> set (h_pipes (s_held t)) \<subseteq> set (h_pipes (s_held s))"
proof -
  have d: "s_phase (drain lb r s') = Draining" "s_held (drain lb r s') = close_ends [PWErr] (close_ends [PWOut] (s_held s'))" for r s' by (simp_all add: drain_def)
  have g: "s_phase (game_exit lb pid werr s) = Draining"
    "set (h_pipes (s_held (game_exit lb pid werr s))) \<subseteq> set (h_pipes (s_held s))" for pid werr
    by (auto simp add: game_exit_def case_prod_unfold d close_ends_def)
  have f: "s_phase (finish lb s) = Stopped"
    "set (h_pipes (s_held (finish lb s))) \<subseteq> set (h_pipes (s_held s))"
    by (auto simp add: finish_def case_prod_unfold alloc_done_def Let_def)
  show ?thesis
    by (rule lstepE [OF assms]; hypsubst) (use g f in \<open>auto simp: close_ends_def\<close>)
qed

lemma steps_forward: "lsteps lb s t \<Longrightarrow> s_phase s \<le> s_phase t \<and> set (h_pipes (s_held t)) \<subseteq> set (h_pipes (s_held s))"
  by (induction rule: lsteps.induct) (auto dest: step_forward intro: order_trans)

lemma result_of_settled:
  assumes "lsteps lb s t" and "sys_ok s" and "s_phase s = Waiting" and "settled (l_reason (s_lobby s)) = 2"
  shows "if s_phase t = Waiting then l_reason (s_lobby t) = l_reason (s_lobby s) else s_result t = l_reason (s_lobby s)"
  using assms
proof (induction rule: lsteps.induct)
  case (one_more s t u)
  have t: "sys_ok t" by (rule sys_steps [OF one_more(1,4)])
  note r = step_result [OF one_more(2) t]
  show ?case
  proof (cases "s_phase t = Waiting")
    case True
    then have "l_reason (s_lobby t) = l_reason (s_lobby s)" using one_more by simp
    with True one_more.prems(3) r(2) reason_keeps(2) [OF step_reason [OF one_more(2) t]] show ?thesis by auto
  qed (use one_more r(1) in simp)
qed simp

text \<open>Once the game is gone, every goroutine can come to its end.\<close>

lemma drain_out:
  assumes "sys_ok s" and "s_phase s = Draining"
  shows "\<exists>t. lsteps lb s t \<and> sys_ok t \<and> s_phase t = Draining \<and> \<not> s_out t"
proof (cases "s_out s")
  case True
  from OutEnd [OF this] have st: "lstep lb s (s\<lparr>s_lobby := scanner_end lb 1 (s_lobby s), s_out := False,
      s_held := close_ends [PROut] (s_held s)\<rparr>)" .
  show ?thesis
    by (rule exI, intro conjI, rule lsteps_one [OF st], rule sys_step [OF st assms(1)]) (simp_all add: assms(2))
qed (use assms in \<open>auto intro: lsteps.intros\<close>)

lemma drain_err:
  assumes "sys_ok s" and "s_phase s = Draining" and "\<not> s_out s"
  shows "\<exists>t. lsteps lb s t \<and> sys_ok t \<and> s_phase t = Draining \<and> \<not> s_out t \<and> \<not> s_err t"
proof (cases "s_err s")
  case True
  from ErrEnd [OF this] have st: "lstep lb s (s\<lparr>s_lobby := scanner_end lb 2 (s_lobby s), s_err := False,
      s_held := close_ends [PRErr] (s_held s)\<rparr>)" .
  show ?thesis
    by (rule exI, intro conjI, rule lsteps_one [OF st], rule sys_step [OF st assms(1)]) (simp_all add: assms)
qed (use assms in \<open>auto intro: lsteps.intros\<close>)

lemma drain_watch:
  assumes "sys_ok s" and "s_phase s = Draining" and "\<not> s_out s" and "\<not> s_err s"
  shows "\<exists>t. lsteps lb s t \<and> sys_ok t \<and> s_phase t = Draining \<and> \<not> s_out t \<and> \<not> s_err t \<and> s_watch t = None"
proof (cases "s_watch s")
  case (Some lastup)
  have "l_done (s_lobby s) = ClosedChan"
    using assms by (auto simp: sys_ok_def lobby_ok_def cancel_ok_def)
  from WatchDone [OF Some this] have st: "lstep lb s (s\<lparr>s_lobby := cancel lb ErrLobbyDone (s_lobby s), s_watch := None\<rparr>)" .
  show ?thesis
    by (rule exI, intro conjI, rule lsteps_one [OF st], rule sys_step [OF st assms(1)]) (simp_all add: assms)
qed (use assms in \<open>auto intro: lsteps.intros\<close>)

lemma collector_step_matches: "l_matches (collector_step lb m l) = l_matches l"
  by (simp add: collector_step_def write_or_cancel_def Let_def case_prod_unfold)

lemma drain_collectors:
  assumes "sys_ok s" and "s_phase s = Draining" and "\<not> s_out s" and "\<not> s_err s" and "s_watch s = None"
  shows "\<exists>t. lsteps lb s t \<and> sys_ok t \<and> s_phase t = Draining \<and> \<not> s_out t \<and> \<not> s_err t \<and> s_watch t = None \<and> s_colls t = 0"
  using assms
proof (induction "length (l_matches (s_lobby s)) + s_colls s" arbitrary: s rule: less_induct)
  case less
  show ?case
  proof (cases "s_colls s = 0")
    case False
    obtain t where st: "lstep lb s t" "s_phase t = Draining" "\<not> s_out t" "\<not> s_err t" "s_watch t = None"
      "length (l_matches (s_lobby t)) + s_colls t < length (l_matches (s_lobby s)) + s_colls s"
    proof (cases "l_matches (s_lobby s)")
      case Nil
      have "l_matches_chan (s_lobby s) = ClosedChan" using less.prems by (simp add: sys_ok_def)
      with Nil False less.prems show thesis by (intro that [OF CollEnd [of s lb]]) simp_all
    next
      case (Cons m ms)
      with False less.prems show thesis
        by (intro that [OF Collect [OF _ Cons, of lb]]) (simp_all add: collector_step_matches)
    qed
    from less.hyps [OF st(6) sys_step [OF st(1) less.prems(1)] st(2-5)] lsteps_one [OF st(1)] show ?thesis
      by (blast intro: lsteps_trans)
  qed (use less.prems in \<open>auto intro: lsteps.intros\<close>)
qed

lemma drain_all:
  assumes "sys_ok s" and "s_phase s = Draining"
  shows "\<exists>t. lsteps lb s t \<and> s_phase t = Stopped"
proof -
  obtain a where a: "lsteps lb s a" "sys_ok a" "s_phase a = Draining" "\<not> s_out a" using drain_out [OF assms] by blast
  obtain b where b: "lsteps lb a b" "sys_ok b" "s_phase b = Draining" "\<not> s_out b" "\<not> s_err b"
    using drain_err [OF a(2-4)] by blast
  obtain c where c: "lsteps lb b c" "sys_ok c" "s_phase c = Draining" "\<not> s_out c" "\<not> s_err c" "s_watch c = None"
    using drain_watch [OF b(2-5)] by blast
  obtain d where d: "lsteps lb c d" "s_phase d = Draining" "\<not> s_out d" "\<not> s_err d" "s_watch d = None" "s_colls d = 0"
    using drain_collectors [OF c(2-6)] by blast
  have "s_phase (finish lb d) = Stopped" by (simp add: finish_def case_prod_unfold)
  with one_more [OF _ Finish [OF d(2,3,4,6,5), of lb]] a(1) b(1) c(1) d(1) show ?thesis
    by (blast intro: lsteps_trans)
qed

section \<open>Properties\<close>

text \<open>C23. An attempt to start that fails holds on to nothing: whichever of the steps fails, all pipe ends
  opened so far are closed, the watch on the spec directory is ended, and the lobby has not begun.\<close>

theorem failed_start_releases_all:
  assumes "alloc hs l = (Some e, h, l')"
  shows "h = nothing_held \<and> l_proc l' = l_proc l \<and> l_done l' = l_done l \<and> l_reason l' = l_reason l"
  using alloc_failed [OF assms] by (simp add: calm_def)

definition sample_host :: host where
  "sample_host = \<lparr>hs_lookpath = Inr, hs_pid = 7, hs_pipe = (\<lambda>_. None),
     hs_setpipesz = (\<lambda>e. if e = PRErr then Some err_io else None), hs_spec_watch = (\<lambda>_. Inr zero_spec),
     hs_executable = Inr ''/bin/snap-gs'', hs_stat = (\<lambda>_. False), hs_environ = []\<rparr>"

theorem failed_start_releases_all_witness:
  "fst (alloc sample_host sample_lobby) \<noteq> None \<and> fst (snd (alloc sample_host sample_lobby)) = nothing_held"
proof -
  obtain e h l' where a: "alloc sample_host sample_lobby = (e, h, l')" by (metis prod_cases3)
  have "hs_lookpath sample_host = Inr" by (simp add: sample_host_def)
  moreover have "alloc_pidfile sample_host sample_lobby = (None, sample_lobby)" by (simp add: alloc_pidfile_def)
  moreover obtain h2 where "alloc_pipes sample_host nothing_held = (Some err_io, h2)"
    by (simp add: alloc_pipes_def sample_host_def Let_def)
  ultimately have "alloc sample_host sample_lobby = (Some err_io, h2, sample_lobby)" by (simp add: alloc_def Let_def)
  with a have "e = Some err_io" by simp
  then show ?thesis using failed_start_releases_all [of sample_host sample_lobby err_io h l'] a by simp
qed

text \<open>C1. No interleaving of the goroutines breaks a lobby: in every state it can get to, from a start
  that may fail anywhere, with any output, any spec and any failures of the disk, nothing has
  panicked, the done channel is closed exactly when there is a reason to stop, the match channel is
  open as long as its sender runs, at most ten matches wait, and the pipe ends held are those in use.\<close>

theorem every_interleaving_is_safe:
  assumes "lsteps lb (runc_start lb hs start (fresh_lobby opts d clk)) s"
  shows "\<not> l_panic (s_lobby s) \<and> length (l_matches (s_lobby s)) \<le> 10
    \<and> (l_done (s_lobby s) \<noteq> NilChan \<longrightarrow> (l_done (s_lobby s) = ClosedChan \<longleftrightarrow> l_reason (s_lobby s) \<noteq> None))
    \<and> (s_out s \<longrightarrow> l_matches_chan (s_lobby s) = OpenChan)
    \<and> (s_phase s \<noteq> Stopped \<longrightarrow> set (h_pipes (s_held s)) =
          (if s_out s then {PROut} else {}) \<union> (if s_err s then {PRErr} else {})
          \<union> (if s_phase s = Waiting then {PWOut, PWErr} else {}))
    \<and> (s_phase s = Stopped \<longrightarrow> s_held s = nothing_held)"
proof -
  have ok: "sys_ok s" using sys_steps [OF assms start_ok [OF fresh_ok]] .
  then have "cancel_ok (s_lobby s)" "queue_ok (l_matches (s_lobby s))" by (simp_all add: sys_ok_def lobby_ok_def)
  then have "\<not> l_panic (s_lobby s)" "length (l_matches (s_lobby s)) \<le> 10"
    "l_done (s_lobby s) \<noteq> NilChan \<longrightarrow> (l_done (s_lobby s) = ClosedChan \<longleftrightarrow> l_reason (s_lobby s) \<noteq> None)"
    by (auto simp: cancel_ok_def queue_ok_def split: if_splits)
  with ok show ?thesis unfolding sys_ok_def by blast
qed

definition good_host :: host where
  "good_host = sample_host\<lparr>hs_setpipesz := (\<lambda>e. None)\<rparr>"

definition sample_start_sys :: sys where
  "sample_start_sys = runc_start sample_lib good_host (Inr 42) (fresh_lobby sample_options sample_disk (\<lambda>n. int n * Second))"

lemma sample_shape:
  defines "s \<equiv> \<lambda>d clk. runc_start sample_lib good_host (Inr 42) (fresh_lobby sample_options d clk)"
  shows "s_out (s d clk) \<and> s_phase (s d clk) = Waiting \<and> l_proc (s_lobby (s d clk)) = Running 42
    \<and> l_reason (s_lobby (s d clk)) = None \<and> l_out (s_lobby (s d clk)) = []"
proof -
  define l where "l = fresh_lobby sample_options d clk"
  have o: "l_opts l = sample_options" "SpecDir sample_options = ''''" "Debug sample_options = False" "l_out l = []"
    by (simp_all add: l_def fresh_lobby_def sample_options_def default_options_def)
  have "hs_lookpath good_host = Inr" by (simp add: good_host_def sample_host_def)
  moreover have "alloc_pidfile good_host l = (None, l)" by (simp add: alloc_pidfile_def o)
  moreover have "alloc_pipes good_host nothing_held = (None, all_ends)"
    by (simp add: alloc_pipes_def good_host_def sample_host_def Let_def)
  moreover have "alloc_spec good_host all_ends l = (None, all_ends, l)" by (simp add: alloc_spec_def o)
  moreover have "alloc_log all_ends l = (None, all_ends, l)" by (simp add: alloc_log_def o)
  ultimately obtain h args where a: "alloc good_host l = (None, h, alloc_commit good_host args l)" by (simp add: alloc_def Let_def)
  let ?l' = "alloc_commit good_host args l"
  obtain d' where d: "snd (remstats sample_lib [] ?l') = ?l'\<lparr>l_disk := d'\<rparr>" using remstats_shape by blast
  have "l_reason ?l' = None" "l_out ?l' = []" using o(4) by (simp, simp add: alloc_commit_def time_now_def Let_def)
  then show ?thesis unfolding s_def l_def [symmetric] using a by (simp add: runc_start_def runc_begin_def Let_def d)
qed

lemma sample_sys_shape: "s_out sample_start_sys \<and> s_phase sample_start_sys = Waiting
  \<and> l_proc (s_lobby sample_start_sys) = Running 42 \<and> l_reason (s_lobby sample_start_sys) = None"
  using sample_shape unfolding sample_start_sys_def by blast

lemma disconnected_line:
  "l_reason (scan_line lb 1 ''Disconnected'' l) = (if settled (l_reason l) = 2 then l_reason l else Some ErrLobbyDisconnected)"
proof -
  have "\<not> ignored stdoutIgnorePrefixes [] (TrimSpace ''Disconnected'')"
    by (rule not_ignored [of "CHR ''D''"]) (simp_all add: stdoutIgnorePrefixes_def)
  then have "lfilter lb 1 ''Disconnected'' l = ((''Disconnected'', None), cancel lb ErrLobbyDisconnected l)"
    by (simp add: lfilter_def act_on_line_def bolt_def filter_defs)
  then show ?thesis by (simp add: scan_line_def Cancel_reason)
qed

theorem every_interleaving_is_safe_witness:
  "let s = sample_start_sys\<lparr>s_lobby := scan_line sample_lib 1 sample_start (s_lobby sample_start_sys)\<rparr> in
    \<not> l_panic (s_lobby s) \<and> l_matches_chan (s_lobby s) = OpenChan"
proof -
  let ?s = "sample_start_sys\<lparr>s_lobby := scan_line sample_lib 1 sample_start (s_lobby sample_start_sys)\<rparr>"
  have "lsteps sample_lib sample_start_sys ?s" using OutLine lsteps_one sample_sys_shape by blast
  from every_interleaving_is_safe [OF this [unfolded sample_start_sys_def]] sample_sys_shape
  show ?thesis by (simp add: sample_start_sys_def [symmetric])
qed

text \<open>C4. A lobby whose game is gone always gets to its end: whatever has happened and wherever the
  goroutines are, there is a way on in which all of them return, the files are put away and
  \<open>runc\<close> returns. No goroutine can wait for ever: the end of the output closes the match channel the
  collectors wait for, and the deferred \<open>Cancel\<close> the done channel the watcher waits for.\<close>

theorem shutdown_completes:
  assumes "lsteps lb (runc_start lb hs start (fresh_lobby opts d clk)) s" and "s_phase s = Draining"
  shows "\<exists>t. lsteps lb s t \<and> s_phase t = Stopped \<and> s_held t = nothing_held"
proof -
  have ok: "sys_ok s" using sys_steps [OF assms(1) start_ok [OF fresh_ok]] .
  obtain t where t: "lsteps lb s t" "s_phase t = Stopped" using drain_all [OF ok assms(2)] by blast
  from sys_steps [OF t(1) ok] t show ?thesis by (auto simp: sys_ok_def)
qed

theorem shutdown_completes_witness:
  "\<exists>t. lsteps sample_lib (game_exit sample_lib 42 None sample_start_sys) t \<and> s_phase t = Stopped \<and> s_held t = nothing_held"
proof -
  have "lsteps sample_lib sample_start_sys (game_exit sample_lib 42 None sample_start_sys)"
    using Exit lsteps_one sample_sys_shape by blast
  moreover have "s_phase (game_exit sample_lib 42 None sample_start_sys) = Draining"
    by (simp add: game_exit_def drain_def case_prod_unfold)
  ultimately show ?thesis using shutdown_completes unfolding sample_start_sys_def by blast
qed

text \<open>C2. The reason is final, across all goroutines: once a lobby stops for a real reason, every later
  state has the same one, and when the game then exits, that reason is what \<open>runc\<close> returns, however
  the game exited.\<close>

theorem reason_is_final:
  assumes "lsteps lb (runc_start lb hs start (fresh_lobby opts d clk)) s" and "lsteps lb s t"
    and "settled (l_reason (s_lobby s)) = 2"
  shows "l_reason (s_lobby t) = l_reason (s_lobby s)
    \<and> (s_phase t = Waiting \<longrightarrow> s_result (game_exit lb pid werr t) = l_reason (s_lobby s))"
proof -
  have ok: "sys_ok s" using sys_steps [OF assms(1) start_ok [OF fresh_ok]] .
  have r: "l_reason (s_lobby t) = l_reason (s_lobby s)"
    using reason_keeps(2) [OF steps_reason [OF assms(2) ok] assms(3)] .
  have "fst (Cancel lb werr ((s_lobby t)\<lparr>l_proc := Exited pid\<rparr>)) = l_reason (s_lobby t)"
    using assms(3) r by (simp add: Cancel_settled)
  with r show ?thesis by (simp add: game_exit_def drain_def case_prod_unfold)
qed

theorem reason_is_final_witness:
  "let s = sample_start_sys\<lparr>s_lobby := scan_line sample_lib 1 ''Disconnected'' (s_lobby sample_start_sys)\<rparr> in
    l_reason (s_lobby s) = Some ErrLobbyDisconnected
    \<and> s_result (game_exit sample_lib 42 (Some (ErrOther ''signal: terminated'')) s) = Some ErrLobbyDisconnected"
proof -
  let ?s = "sample_start_sys\<lparr>s_lobby := scan_line sample_lib 1 ''Disconnected'' (s_lobby sample_start_sys)\<rparr>"
  have st: "lsteps sample_lib sample_start_sys ?s" using OutLine lsteps_one sample_sys_shape by blast
  have r: "l_reason (s_lobby ?s) = Some ErrLobbyDisconnected" using sample_sys_shape by (simp add: disconnected_line [simplified])
  have "s_phase ?s = Waiting" using sample_sys_shape by simp
  then show ?thesis
    using reason_is_final [OF st [unfolded sample_start_sys_def] done_here, of 42 "Some (ErrOther ''signal: terminated'')"] r
    by (simp add: sample_start_sys_def [symmetric])
qed

text \<open>What \<open>runc\<close> returns is fixed before the rest of the output is read: a reason found in it is the
  lobby's reason, but is not returned.\<close>

lemma late_reason_is_not_returned:
  "\<exists>s t. lsteps sample_lib sample_start_sys s \<and> lstep sample_lib s t \<and> s_phase s = Draining
     \<and> l_reason (s_lobby t) = Some ErrLobbyDisconnected \<and> s_result t = None"
proof -
  let ?s = "game_exit sample_lib 42 None sample_start_sys"
  have s: "lsteps sample_lib sample_start_sys ?s" using Exit lsteps_one sample_sys_shape by blast
  have c: "Cancel sample_lib None l = (l_reason l, l)" for l by (simp add: Cancel_def)
  have f: "s_out ?s" "s_phase ?s = Draining" "s_result ?s = None" "l_reason (s_lobby ?s) = Some ErrLobbyDone"
    using sample_sys_shape by (simp_all add: game_exit_def drain_def c Cancel_reason)
  show ?thesis
    by (intro exI conjI, rule s, rule OutLine [OF f(1), of _ "''Disconnected''"]) (simp_all add: f disconnected_line [simplified])
qed

end
