(* ===== verification/Supervisor.thy ===== *)
theory Supervisor
  imports LobbySystem GoLog
begin

text \<open>
  \<open>public/lobby/lobby.go\<close>: one run of a lobby with its log files (\<open>runc\<close>) and the loop that runs
  lobbies again and again (\<open>Run\<close>). The run itself is \<open>lobby_Run\<close>, \<open>Run\<close> of
  \<open>internal/lobby/lobby.go\<close>: any execution of the goroutines of \<open>LobbySystem\<close>.

  A writer is the list of what is written to it. The log files are on the disk; what the run writes
  to them is taken in order, at the end of the run, as nothing reads them before. A compressed file
  grows by \<open>sh_gzip\<close> of what was written before and what is written now, and by \<open>sh_gzend\<close> when the
  compressor is closed. \<open>shell\<close> collects the other texts the code only passes on.
\<close>

section \<open>One run of a lobby\<close>

inductive lobby_Run :: "lib \<Rightarrow> host \<Rightarrow> (goerror + int) \<Rightarrow> (nat \<Rightarrow> time) \<Rightarrow> goerror option \<Rightarrow> lobby_options
    \<Rightarrow> disk \<Rightarrow> lobby option \<Rightarrow> goerror option \<Rightarrow> bool" for lb hs start clk where
  Refused: "lobby_Run lb hs start clk (Some e) opts d None (Some e)"
| Completed: "lsteps lb (runc_start lb hs start (fresh_lobby opts d clk)) t \<Longrightarrow> s_phase t = Stopped \<Longrightarrow>
    lobby_Run lb hs start clk None opts d (Some (s_lobby t)) (s_result t)"

inductive_cases lobby_Run_cases: "lobby_Run lb hs start clk ce opts d l r"

section \<open>The log files of a run\<close>

record shell =
  sh_seconds :: "time \<Rightarrow> bytes"
  sh_gzip :: "bytes \<Rightarrow> bytes \<Rightarrow> bytes"
  sh_gzend :: "bytes \<Rightarrow> bytes"
  sh_up :: "nat \<Rightarrow> bytes"
  sh_error :: "goerror \<Rightarrow> bytes"
  sh_duration :: "duration \<Rightarrow> bytes"
  sh_stderr_ok :: bool

record logs =
  lg_file :: bytes
  lg_plain :: "bytes option"
  lg_gz :: bytes
  lg_gzerr :: bool

definition lobby_meta :: "lobby_options \<Rightarrow> meta" where
  "lobby_meta opts =
     \<lparr>ContentType = ''text/plain'', ContentDisposition = ''inline'', ContentLanguage = ''en-US'',
      ContentEncoding = ''gzip'', Metadata = [(''lobby'', Session opts)]\<rparr>"

definition lobby_log_gz :: "shell \<Rightarrow> time \<Rightarrow> lobby_options \<Rightarrow> bytes" where
  "lobby_log_gz sh now opts = PJoin [LogDir opts, ReplaceAll (sh_seconds sh now) (CHR 0x3A) ''_'' @ ''-lobby.log.gz'']"

definition lobby_log :: "lobby_options \<Rightarrow> bytes" where
  "lobby_log opts = PJoin [LogDir opts, ''lobby.log'']"

text \<open>Writing to the compressor, whose first error is kept.\<close>

definition gz_Write :: "shell \<Rightarrow> bytes \<Rightarrow> logs \<times> disk \<Rightarrow> logs \<times> disk" where
  "gz_Write sh bs st =
     (case st of (lg, d) \<Rightarrow>
        if lg_gzerr lg then (lg, d)
        else case fd_Write (lg_file lg @ ''.lock'') (sh_gzip sh (lg_gz lg) bs) d of
          (None, d) \<Rightarrow> (lg\<lparr>lg_gz := lg_gz lg @ bs\<rparr>, d)
        | (Some e, d) \<Rightarrow> (lg\<lparr>lg_gzerr := True\<rparr>, d))"

text \<open>The two \<open>MultiWriter\<close>s: standard output goes to the plain file and then to the compressor, standard
  error to the caller's and then to the compressor. A writer that fails ends the chain.\<close>

definition tee :: "shell \<Rightarrow> nat \<times> bytes \<Rightarrow> logs \<times> disk \<Rightarrow> logs \<times> disk" where
  "tee sh w st =
     (case (w, st) of ((fd, bs), lg, d) \<Rightarrow>
        if fd = 1 then
          (case lg_plain lg of
             None \<Rightarrow> gz_Write sh bs (lg, d)
           | Some p \<Rightarrow>
               (case fd_Write p bs d of
                  (None, d) \<Rightarrow> gz_Write sh bs (lg, d)
                | (Some e, d) \<Rightarrow> (lg, d)))
        else if sh_stderr_ok sh then gz_Write sh bs (lg, d)
        else (lg, d))"

text \<open>The deferred calls: the compressor and the file are closed, the attribute is set, and only then
  the file gets its name.\<close>

definition runc_close :: "shell \<Rightarrow> bytes \<Rightarrow> logs \<times> disk \<Rightarrow> disk" where
  "runc_close sh sm st =
     (case st of (lg, d) \<Rightarrow>
        let lock = lg_file lg @ ''.lock'';
            d = (if lg_gzerr lg then d else snd (fd_Write lock (sh_gzend sh (lg_gz lg)) d));
            d = snd (xattr_Set lock sm d)
        in snd (os_Rename lock (lg_file lg) d))"

definition debug_lines :: "shell \<Rightarrow> lobby_options \<Rightarrow> nat \<Rightarrow> bytes \<Rightarrow> (nat \<times> bytes) list" where
  "debug_lines sh opts k file =
     (if Debug opts then map (Pair 2) (Debugf (sh_up sh k) (''runc: stdout: '' @ file)) else [])"

definition report_lines :: "shell \<Rightarrow> goerror option \<Rightarrow> duration \<Rightarrow> (nat \<times> bytes) list" where
  "report_lines sh e up =
     map (Pair 2) (Errorf (sh_up sh 2)
       (''runc: error: '' @ (case e of None \<Rightarrow> ''<nil>'' | Some e \<Rightarrow> sh_error sh e) @ '' uptime='' @ sh_duration sh up)
       [case e of None \<Rightarrow> NilArg | Some e \<Rightarrow> ErrorArg e, ValueArg])"

type_synonym runner = "disk \<Rightarrow> (nat \<times> bytes) list \<times> duration \<times> goerror option \<times> disk"

text \<open>\<open>runc\<close> around \<open>run\<close>, which stands for an execution of \<open>lobby_Run\<close>: what it wrote, how long the
  lobby was up, its result, and the disk it left.\<close>

definition runc :: "lib \<Rightarrow> shell \<Rightarrow> lobby_options \<Rightarrow> time \<Rightarrow> runner \<Rightarrow> disk \<Rightarrow> goerror option \<times> disk" where
  "runc lb sh opts now run d =
     (case Validate opts of Some e \<Rightarrow> (Some e, d)
      | None \<Rightarrow>
          (case marshal_meta lb (lobby_meta opts) of None \<Rightarrow> (Some err_json, d)
           | Some sm \<Rightarrow>
               if LogDir opts = '''' then (case run d of (ws, up, e, d) \<Rightarrow> (e, d))
               else
                 let file = lobby_log_gz sh now opts in
                 (case os_Create (file @ ''.lock'') d of
                    (Some e, d) \<Rightarrow> (Some e, d)
                  | (None, d) \<Rightarrow>
                      let st = fold (tee sh) (debug_lines sh opts 0 file)
                                 (\<lparr>lg_file = file, lg_plain = None, lg_gz = '''', lg_gzerr = False\<rparr>, d);
                          file = lobby_log opts
                      in (case os_Create file (snd st) of
                            (Some e, d) \<Rightarrow> (Some e, runc_close sh sm (fst st, d))
                          | (None, d) \<Rightarrow>
                              let st = fold (tee sh) (debug_lines sh opts 1 file) ((fst st)\<lparr>lg_plain := Some file\<rparr>, d)
                              in (case run (snd st) of
                                    (ws, up, e, d) \<Rightarrow>
                                      (e, runc_close sh sm (fold (tee sh) (ws @ report_lines sh e up) (fst st, d))))))))"

section \<open>Running lobbies again and again\<close>

text \<open>One pass of the loop as the loop sees it: the context at its head, the options at that time, what
  the run returned and how long it took.\<close>

record round =
  rd_ctx :: "goerror option"
  rd_maxfails :: int
  rd_result :: "goerror option"
  rd_elapsed :: duration

datatype verdict = Return "goerror option" | Retry int | Sleep int duration

definition up_floor :: duration where
  "up_floor = 15 * Second"

definition rd_uptime :: "round \<Rightarrow> duration" where
  "rd_uptime r = Round (rd_elapsed r) Millisecond"

definition clean_exit :: "goerror option \<Rightarrow> bool" where
  "clean_exit e \<longleftrightarrow> e = None \<or> e = Some ErrLobbyIdleTimeout \<or> e = Some ErrLobbyAdminTimeout"

definition told_to_stop :: "goerror option \<Rightarrow> bool" where
  "told_to_stop e \<longleftrightarrow> e = Some ErrLobbyDowned \<or> e = Some ErrLobbyRestarted \<or> e = Some ErrLobbyStopped"

definition judge :: "round \<Rightarrow> int \<Rightarrow> verdict" where
  "judge r fails =
     (let err = rd_result r in
      if clean_exit err then
        let uptime = rd_uptime r;
            fails = (if up_floor \<le> uptime then 0 else fails + 1)
        in if rd_maxfails r \<le> fails then
             (if err \<noteq> None \<or> rd_maxfails r = 0 then Return err else Return (Some ErrLobbyMaxFails))
           else if fails = 0 then Retry 0
           else Sleep fails (up_floor - uptime)
      else if told_to_stop err then Return err
      else let fails = fails + 1 in if rd_maxfails r \<le> fails then Return err else Retry fails)"

datatype progress = Going int int | Ended int "goerror option"

fun run_loop :: "round list \<Rightarrow> int \<Rightarrow> int \<Rightarrow> progress" where
  "run_loop [] runs fails = Going runs fails"
| "run_loop (r # rs) runs fails =
     (case rd_ctx r of
        Some e \<Rightarrow> Ended runs (Some e)
      | None \<Rightarrow>
          (case judge r fails of
             Return e \<Rightarrow> Ended (runs + 1) e
           | Retry f \<Rightarrow> run_loop rs (runs + 1) f
           | Sleep f pause \<Rightarrow> run_loop rs (runs + 1) f))"

definition Run :: "round list \<Rightarrow> progress" where
  "Run rs = run_loop rs 0 0"

section \<open>The loop and its reference\<close>

text \<open>A round is healthy if it ended cleanly after the floor. The strikes are the rounds since the last
  healthy one, and a round is the last one when the context is done at its head, when it was told to
  stop, or when the strikes have reached the maximum of that time.\<close>

definition healthy_round :: "round \<Rightarrow> bool" where
  "healthy_round r \<longleftrightarrow> clean_exit (rd_result r) \<and> up_floor \<le> rd_uptime r"

definition strikes :: "round list \<Rightarrow> nat" where
  "strikes rs = length (takeWhile (\<lambda>r. \<not> healthy_round r) (rev rs))"

definition last_round :: "round list \<Rightarrow> nat \<Rightarrow> bool" where
  "last_round rs i \<longleftrightarrow> rd_ctx (rs ! i) \<noteq> None \<or> told_to_stop (rd_result (rs ! i))
     \<or> rd_maxfails (rs ! i) \<le> int (strikes (take (Suc i) rs))"

definition answer :: "round \<Rightarrow> goerror option" where
  "answer r = (if rd_ctx r \<noteq> None then rd_ctx r
     else if rd_result r = None \<and> rd_maxfails r \<noteq> 0 then Some ErrLobbyMaxFails
     else rd_result r)"

lemma strikes_snoc: "strikes (rs @ [r]) = (if healthy_round r then 0 else Suc (strikes rs))"
  by (simp add: strikes_def)

lemma strikes_Nil [simp]: "strikes [] = 0"
  by (simp add: strikes_def)

lemma judge_cases:
  "judge r (int (strikes rs)) =
     (if told_to_stop (rd_result r) \<or> rd_maxfails r \<le> int (strikes (rs @ [r]))
      then Return (if rd_result r = None \<and> rd_maxfails r \<noteq> 0 then Some ErrLobbyMaxFails else rd_result r)
      else if clean_exit (rd_result r) \<and> strikes (rs @ [r]) \<noteq> 0
      then Sleep (int (strikes (rs @ [r]))) (up_floor - rd_uptime r)
      else Retry (int (strikes (rs @ [r]))))"
  by (auto simp: judge_def strikes_snoc healthy_round_def clean_exit_def told_to_stop_def Let_def)

lemma judge_pause: "judge r fails = Sleep f pause \<Longrightarrow> clean_exit (rd_result r) \<and> pause = up_floor - rd_uptime r \<and> 0 < pause"
  by (auto simp: judge_def Let_def split: if_splits)

lemma run_loop_from:
  "n \<le> length rs \<Longrightarrow> run_loop (drop n rs) (int n) (int (strikes (take n rs))) =
     (case find (last_round rs) [n..<length rs] of
        None \<Rightarrow> Going (int (length rs)) (int (strikes rs))
      | Some i \<Rightarrow> Ended (if rd_ctx (rs ! i) = None then int i + 1 else int i) (answer (rs ! i)))"
proof (induction "length rs - n" arbitrary: n)
  case 0
  then show ?case by simp
next
  case (Suc k)
  then have n: "n < length rs" by simp
  have d: "drop n rs = rs ! n # drop (Suc n) rs" using n by (rule Cons_nth_drop_Suc [symmetric])
  have u: "[n..<length rs] = n # [Suc n..<length rs]" using n by (rule upt_conv_Cons)
  have t: "take (Suc n) rs = take n rs @ [rs ! n]" using n by (rule take_Suc_conv_app_nth)
  have IH: "run_loop (drop (Suc n) rs) (int (Suc n)) (int (strikes (take (Suc n) rs))) =
     (case find (last_round rs) [Suc n..<length rs] of
        None \<Rightarrow> Going (int (length rs)) (int (strikes rs))
      | Some i \<Rightarrow> Ended (if rd_ctx (rs ! i) = None then int i + 1 else int i) (answer (rs ! i)))"
    by (rule Suc.hyps(1)) (use Suc.hyps(2) in simp_all)
  show ?case
  proof (cases "last_round rs n")
    case True
    show ?thesis
    proof (cases "rd_ctx (rs ! n)")
      case None
      with True have "told_to_stop (rd_result (rs ! n)) \<or> rd_maxfails (rs ! n) \<le> int (strikes (take n rs @ [rs ! n]))"
        by (simp add: last_round_def t)
      with None True show ?thesis by (simp add: d u judge_cases answer_def)
    qed (simp add: d u answer_def True)
  next
    case False
    then have "rd_ctx (rs ! n) = None" "\<not> (told_to_stop (rd_result (rs ! n)) \<or> rd_maxfails (rs ! n) \<le> int (strikes (take n rs @ [rs ! n])))"
      by (simp_all add: last_round_def t)
    then have "run_loop (drop n rs) (int n) (int (strikes (take n rs)))
        = run_loop (drop (Suc n) rs) (int (Suc n)) (int (strikes (take (Suc n) rs)))"
      by (simp add: d judge_cases t [symmetric] add.commute)
    with IH False n show ?thesis by (simp add: u)
  qed
qed

lemma supervisor_reference_lemma:
  "Run rs = (case find (last_round rs) [0..<length rs] of
     None \<Rightarrow> Going (int (length rs)) (int (strikes rs))
   | Some i \<Rightarrow> Ended (if rd_ctx (rs ! i) = None then int i + 1 else int i) (answer (rs ! i)))"
  using run_loop_from [of 0 rs] by (simp add: Run_def)

lemma strikes_all: "list_all (\<lambda>r. \<not> healthy_round r) rs \<Longrightarrow> strikes rs = length rs"
  by (simp add: strikes_def list_all_iff takeWhile_eq_all_conv [THEN iffD2])

text \<open>C5. The loop ends with the first round that is the last one by the rule above, with the answer of
  that round, and otherwise goes on with as many fails as there are strikes.\<close>

theorem supervisor_reference:
  "Run rs = (case find (last_round rs) [0..<length rs] of
     None \<Rightarrow> Going (int (length rs)) (int (strikes rs))
   | Some i \<Rightarrow> Ended (if rd_ctx (rs ! i) = None then int i + 1 else int i) (answer (rs ! i)))"
  by (rule supervisor_reference_lemma)

text \<open>C32. A lobby that never gets going is given up: if no round is healthy, the loop ends after exactly
  as many runs as it may fail, and after one run if it may not fail at all.\<close>

theorem supervisor_gives_up:
  assumes "list_all (\<lambda>r. \<not> healthy_round r \<and> \<not> told_to_stop (rd_result r) \<and> rd_ctx r = None \<and> rd_maxfails r = M) rs"
    and "max 1 M \<le> int (length rs)"
  shows "Run rs = Ended (max 1 M) (answer (rs ! (nat (max 1 M) - 1)))"
proof -
  define k where "k = nat (max 1 M) - 1"
  have k: "k < length rs" "int k + 1 = max 1 M" using assms(2) unfolding k_def max_def by (auto split: if_splits)
  have all: "\<not> healthy_round (rs ! i)" "\<not> told_to_stop (rd_result (rs ! i))" "rd_ctx (rs ! i) = None" "rd_maxfails (rs ! i) = M"
    if "i < length rs" for i using assms(1) that by (auto simp: list_all_length)
  have "strikes (take (Suc i) rs) = Suc i" if "i < length rs" for i
    using that assms(1) by (subst strikes_all) (auto simp: list_all_iff dest: in_set_takeD)
  then have last: "last_round rs i \<longleftrightarrow> M \<le> int i + 1" if "i < length rs" for i
    using that all [OF that] by (simp add: last_round_def add.commute)
  have "find (last_round rs) [0..<length rs] = Some k"
    unfolding find_Some_iff using k last by (intro exI [of _ k]) auto
  then show ?thesis using k all [OF k(1)] unfolding k_def [symmetric] by (simp add: supervisor_reference_lemma)
qed

definition bad_round :: round where
  "bad_round = \<lparr>rd_ctx = None, rd_maxfails = 3, rd_result = Some ErrLobbyBad, rd_elapsed = Hour\<rparr>"

definition short_round :: round where
  "short_round = bad_round\<lparr>rd_result := None, rd_elapsed := 14 * Second\<rparr>"

lemma sample_rounds [simp]:
  "\<not> healthy_round bad_round" "\<not> healthy_round short_round" "\<not> told_to_stop (rd_result bad_round)"
  "\<not> told_to_stop (rd_result short_round)" "rd_ctx bad_round = None" "rd_ctx short_round = None"
  "rd_maxfails bad_round = 3" "rd_maxfails short_round = 3" "answer bad_round = Some ErrLobbyBad"
  "answer short_round = Some ErrLobbyMaxFails"
  by code_simp+

theorem supervisor_gives_up_witness:
  "Run [bad_round, short_round, short_round, bad_round] = Ended 3 (Some ErrLobbyMaxFails)"
  using supervisor_gives_up [of 3 "[bad_round, short_round, short_round, bad_round]"] by simp

text \<open>After a clean run that was too short, the next one starts no sooner than the floor after it, up to
  the rounding of its duration.\<close>

lemma restarts_are_paced:
  assumes "judge r fails = Sleep f pause" and "0 \<le> rd_elapsed r" and "rd_elapsed r \<le> max_int64"
  shows "2 * \<bar>rd_elapsed r + pause - up_floor\<bar> \<le> Millisecond"
proof -
  have "2 * \<bar>Round (rd_elapsed r) Millisecond - rd_elapsed r\<bar> \<le> Millisecond"
    using assms(2,3) by (intro Round_close) simp_all
  moreover have "pause = up_floor - rd_uptime r" using judge_pause [OF assms(1)] by simp
  ultimately show ?thesis unfolding rd_uptime_def by simp
qed

section \<open>The log files hold what was written\<close>

fun gz_stream :: "shell \<Rightarrow> bytes \<Rightarrow> bytes list \<Rightarrow> bytes" where
  "gz_stream sh sofar [] = ''''"
| "gz_stream sh sofar (b # bs) = sh_gzip sh sofar b @ gz_stream sh (sofar @ b) bs"

definition stdout_of :: "(nat \<times> bytes) list \<Rightarrow> bytes" where
  "stdout_of ws = concat (map snd (filter (\<lambda>w. fst w = 1) ws))"

lemma gz_stream_snoc: "gz_stream sh a (bs @ [b]) = gz_stream sh a bs @ sh_gzip sh (a @ concat bs) b"
  by (induction bs arbitrary: a) simp_all

lemma stdout_of_simps [simp]: "stdout_of [] = []" "stdout_of (w # ws) = (if fst w = 1 then snd w else []) @ stdout_of ws"
  "stdout_of (us @ ws) = stdout_of us @ stdout_of ws"
  by (simp_all add: stdout_of_def)

lemma stdout_pairs: "stdout_of (map (Pair 2) bs) = []"
  by (induction bs) simp_all

lemma fd_Write_healthy:
  assumes "healthy d" and "data_at d p = Some bs"
  obtains d' where "fd_Write p b d = (None, d')" and "healthy d'" and "data_at d' p = Some (bs @ b)"
    and "\<And>q. Clean q \<noteq> Clean p \<Longrightarrow> file_at d' q = file_at d q"
proof -
  obtain f where f: "file_at d p = Some f" "fl_data f = bs" using assms(2) by auto
  show thesis
    by (rule that [of "put_file p (f\<lparr>fl_data := fl_data f @ b\<rparr>) (spent d)"])
      (simp_all add: fd_Write_def f assms(1))
qed

definition logging :: "shell \<Rightarrow> bytes \<Rightarrow> bytes option \<Rightarrow> bytes \<Rightarrow> bytes list \<Rightarrow> logs \<times> disk \<Rightarrow> bool" where
  "logging sh file plain out zs st \<longleftrightarrow>
     (case st of (lg, d) \<Rightarrow> healthy d \<and> lg = \<lparr>lg_file = file, lg_plain = plain, lg_gz = concat zs, lg_gzerr = False\<rparr>
        \<and> data_at d (file @ ''.lock'') = Some (gz_stream sh '''' zs)
        \<and> (case plain of None \<Rightarrow> True | Some p \<Rightarrow> Clean p \<noteq> Clean (file @ ''.lock'') \<and> data_at d p = Some out))"

lemma gz_Write_logging:
  assumes "logging sh file plain out zs (lg, d)"
  shows "logging sh file plain out (zs @ [b]) (gz_Write sh b (lg, d))"
proof -
  have a: "healthy d" "data_at d (file @ ''.lock'') = Some (gz_stream sh '''' zs)"
    and l: "lg = \<lparr>lg_file = file, lg_plain = plain, lg_gz = concat zs, lg_gzerr = False\<rparr>"
    using assms by (simp_all add: logging_def)
  obtain d' where d': "fd_Write (file @ ''.lock'') (sh_gzip sh (concat zs) b) d = (None, d')" "healthy d'"
    "data_at d' (file @ ''.lock'') = Some (gz_stream sh '''' zs @ sh_gzip sh (concat zs) b)"
    "\<And>q. Clean q \<noteq> Clean (file @ ''.lock'') \<Longrightarrow> file_at d' q = file_at d q"
    using fd_Write_healthy [OF a] by metis
  have "gz_Write sh b (lg, d) = (lg\<lparr>lg_gz := concat zs @ b\<rparr>, d')" by (simp add: gz_Write_def l d'(1))
  then show ?thesis using assms d' by (auto simp: logging_def gz_stream_snoc l split: option.splits)
qed

lemma tee_logging:
  assumes "logging sh file plain out zs st" and "sh_stderr_ok sh"
  shows "logging sh file plain (out @ stdout_of [w]) (zs @ [snd w]) (tee sh w st)"
proof -
  obtain fd b where w: "w = (fd, b)" by fastforce
  obtain lg d where st: "st = (lg, d)" by fastforce
  have plain: "lg_plain lg = plain" using assms(1) by (simp add: logging_def st)
  show ?thesis
  proof (cases "fd = 1 \<and> plain \<noteq> None")
    case False
    then have "tee sh w st = gz_Write sh b (lg, d)" using assms(2) by (auto simp: tee_def w st plain)
    moreover have "logging sh file plain (out @ stdout_of [w]) zs (lg, d)"
      using assms(1) False by (auto simp: logging_def st w split: option.splits)
    ultimately show ?thesis using gz_Write_logging by (simp add: w)
  next
    case True
    then obtain p where p: "plain = Some p" by auto
    then have a: "healthy d" "data_at d p = Some out" "Clean (file @ ''.lock'') \<noteq> Clean p"
      using assms(1) by (auto simp: logging_def st)
    obtain d' where d': "fd_Write p b d = (None, d')" "healthy d'" "data_at d' p = Some (out @ b)"
      "\<And>q. Clean q \<noteq> Clean p \<Longrightarrow> file_at d' q = file_at d q"
      using fd_Write_healthy [OF a(1,2)] by metis
    have "logging sh file plain (out @ stdout_of [w]) zs (lg, d')"
      using assms(1) d'(2,3) d'(4) [OF a(3)] True by (simp add: logging_def st w p)
    moreover have "tee sh w st = gz_Write sh b (lg, d')" using True by (simp add: tee_def w st plain p d'(1))
    ultimately show ?thesis using gz_Write_logging by (simp add: w)
  qed
qed

lemma tees_logging:
  assumes "sh_stderr_ok sh"
  shows "logging sh file plain out zs st \<Longrightarrow>
    logging sh file plain (out @ stdout_of ws) (zs @ map snd ws) (fold (tee sh) ws st)"
proof (induction ws arbitrary: out zs st)
  case (Cons w ws)
  from Cons.IH [OF tee_logging [OF Cons.prems assms, of w]] show ?case by simp
qed simp

text \<open>Where the two log files of a run are.\<close>

lemma log_paths:
  assumes "LogDir opts \<noteq> ''''" and "slash \<notin> set (sh_seconds sh now)"
  shows "Clean (lobby_log opts) \<noteq> Clean (lobby_log_gz sh now opts @ ''.lock'')"
    and "Clean (lobby_log_gz sh now opts) \<noteq> Clean (lobby_log_gz sh now opts @ ''.lock'')"
    and "Clean (lobby_log_gz sh now opts) \<noteq> Clean (lobby_log opts)"
    and "lobby_log_gz sh now opts \<noteq> ''''" and "lobby_log opts \<noteq> ''''"
proof -
  define n where "n = ReplaceAll (sh_seconds sh now) (CHR 0x3A) ''_'' @ ''-lobby.log.gz''"
  have s: "slash \<notin> set (ReplaceAll (sh_seconds sh now) (CHR 0x3A) ''_'')"
    using assms(2) by (auto simp: ReplaceAll_def slash_def split: if_splits)
  have n: "simple_name n" "simple_name (n @ ''.lock'')" "simple_name ''lobby.log''"
    using s by (auto simp: simple_name_def n_def slash_def Cons_eq_append_conv append_eq_Cons_conv)
  have f: "lobby_log_gz sh now opts = PJoin [LogDir opts, n]" by (simp add: lobby_log_gz_def n_def)
  have l: "lobby_log_gz sh now opts @ ''.lock'' = PJoin [LogDir opts, n @ ''.lock'']"
    unfolding f by (rule PJoin_suffix) (use assms(1) n in simp_all)
  have c: "Clean (PJoin [LogDir opts, m]) = PJoin [LogDir opts, m]" if "simple_name m" for m
    using that assms(1) by simp
  have last: "last (n @ ''.lock'') = CHR ''k''" "last n = CHR ''z''" "last ''lobby.log'' = CHR ''g''"
    by (simp_all add: n_def)
  have d: "''lobby.log'' \<noteq> n @ ''.lock''" "''lobby.log'' \<noteq> n"
    using arg_cong [of "''lobby.log''" "n @ ''.lock''" last] arg_cong [of "''lobby.log''" n last] unfolding last by auto
  have e: "lobby_log opts = PJoin [LogDir opts, ''lobby.log'']" by (simp add: lobby_log_def)
  have i: "PJoin [LogDir opts, a] = PJoin [LogDir opts, b] \<longleftrightarrow> a = b" if "simple_name a" "simple_name b" for a b
    using PJoin_inj [OF assms(1)] that by simp
  show "Clean (lobby_log opts) \<noteq> Clean (lobby_log_gz sh now opts @ ''.lock'')"
    unfolding l e c [OF n(2)] c [OF n(3)] i [OF n(3,2)] by (rule d(1))
  show "Clean (lobby_log_gz sh now opts) \<noteq> Clean (lobby_log_gz sh now opts @ ''.lock'')"
    unfolding l c [OF n(2)] unfolding f c [OF n(1)] i [OF n(1,2)] by simp
  show "Clean (lobby_log_gz sh now opts) \<noteq> Clean (lobby_log opts)"
    unfolding e f c [OF n(1)] c [OF n(3)] i [OF n(1,3)] using d(2) by metis
  show "lobby_log_gz sh now opts \<noteq> ''''" unfolding f by (rule PJoin_nonempty) (use assms(1) n in simp_all)
  show "lobby_log opts \<noteq> ''''" unfolding e by (rule PJoin_nonempty) (use assms(1) n in simp_all)
qed

lemma create_healthy:
  assumes "healthy d" and "p \<noteq> ''''"
  obtains d' where "os_Create p d = (None, d')" and "healthy d'" and "data_at d' p = Some ''''"
    and "\<And>q. Clean q \<noteq> Clean p \<Longrightarrow> file_at d' q = file_at d q"
  by (rule that [of "put_file p (written p '''' d) (spent d)"]) (simp_all add: os_Create_def assms)

lemma runc_close_publishes:
  assumes "logging sh file plain out zs st" and "file \<noteq> ''''" and "Clean file \<noteq> Clean (file @ ''.lock'')"
  shows "file_at (runc_close sh sm st) file = Some \<lparr>fl_data = gz_stream sh '''' zs @ sh_gzend sh (concat zs), fl_meta = Some sm\<rparr>
    \<and> file_at (runc_close sh sm st) (file @ ''.lock'') = None
    \<and> (\<forall>q. Clean q \<noteq> Clean file \<longrightarrow> Clean q \<noteq> Clean (file @ ''.lock'') \<longrightarrow> file_at (runc_close sh sm st) q = file_at (snd st) q)"
proof -
  obtain lg d where st: "st = (lg, d)" by fastforce
  have a: "healthy d" "data_at d (file @ ''.lock'') = Some (gz_stream sh '''' zs)"
    and l: "lg = \<lparr>lg_file = file, lg_plain = plain, lg_gz = concat zs, lg_gzerr = False\<rparr>"
    using assms(1) by (simp_all add: logging_def st)
  obtain d1 where d1: "fd_Write (file @ ''.lock'') (sh_gzend sh (concat zs)) d = (None, d1)" "healthy d1"
    "data_at d1 (file @ ''.lock'') = Some (gz_stream sh '''' zs @ sh_gzend sh (concat zs))"
    "\<And>q. Clean q \<noteq> Clean (file @ ''.lock'') \<Longrightarrow> file_at d1 q = file_at d q"
    using fd_Write_healthy [OF a] by metis
  obtain f where f: "file_at d1 (file @ ''.lock'') = Some f" "fl_data f = gz_stream sh '''' zs @ sh_gzend sh (concat zs)"
    using d1(3) by auto
  define d2 where "d2 = snd (xattr_Set (file @ ''.lock'') sm d1)"
  have d2: "healthy d2" "file_at d2 (file @ ''.lock'') = Some (f\<lparr>fl_meta := Some sm\<rparr>)"
    "\<And>q. Clean q \<noteq> Clean (file @ ''.lock'') \<Longrightarrow> file_at d2 q = file_at d1 q"
    using d1(2) f by (simp_all add: d2_def xattr_Set_def)
  have "runc_close sh sm st = snd (os_Rename (file @ ''.lock'') file d2)"
    by (simp add: runc_close_def st l d1(1) d2_def Let_def)
  also have "\<dots> = put_file file (f\<lparr>fl_meta := Some sm\<rparr>) (drop_file (file @ ''.lock'') (spent d2))"
    using assms(2) d2(1,2) by (simp add: os_Rename_def)
  finally have r: "runc_close sh sm st = \<dots>" .
  show ?thesis unfolding r using assms(3) f(2) d2(3) d1(4) by (cases f) (simp add: st)
qed

lemma runc_logs:
  assumes "healthy d" and "Validate opts = None" and "marshal_meta lb (lobby_meta opts) = Some sm"
    and "LogDir opts \<noteq> ''''" and "slash \<notin> set (sh_seconds sh now)" and "sh_stderr_ok sh"
    and run: "\<And>d ws up e d'. run d = (ws, up, e, d') \<Longrightarrow> healthy d \<Longrightarrow> healthy d'
      \<and> file_at d' (lobby_log opts) = file_at d (lobby_log opts)
      \<and> file_at d' (lobby_log_gz sh now opts @ ''.lock'') = file_at d (lobby_log_gz sh now opts @ ''.lock'')"
  shows "\<exists>d0 ws up e d1. healthy d0 \<and> run d0 = (ws, up, e, d1) \<and>
    (let (r, d') = runc lb sh opts now run d;
      file = lobby_log_gz sh now opts;
      all = map snd (debug_lines sh opts 0 file @ debug_lines sh opts 1 (lobby_log opts) @ ws @ report_lines sh e up)
    in r = e
      \<and> file_at d' file = Some \<lparr>fl_data = gz_stream sh '''' all @ sh_gzend sh (concat all), fl_meta = Some sm\<rparr>
      \<and> file_at d' (file @ ''.lock'') = None
      \<and> data_at d' (lobby_log opts) = Some (stdout_of ws))"
proof -
  let ?file = "lobby_log_gz sh now opts" and ?plain = "lobby_log opts"
  note paths = log_paths [OF assms(4,5)]
  let ?z0 = "map snd (debug_lines sh opts 0 ?file)" and ?z1 = "map snd (debug_lines sh opts 1 ?plain)"
  have dbg: "stdout_of (debug_lines sh opts k f) = []" for k f
    by (simp add: debug_lines_def stdout_pairs)
  have rep: "stdout_of (report_lines sh e up) = []" for e up by (simp add: report_lines_def stdout_pairs)
  obtain d0 where d0: "os_Create (?file @ ''.lock'') d = (None, d0)" "healthy d0" "data_at d0 (?file @ ''.lock'') = Some ''''"
    using create_healthy [OF assms(1)] by (metis append_is_Nil_conv list.distinct(1))
  let ?lg = "\<lparr>lg_file = ?file, lg_plain = None, lg_gz = '''', lg_gzerr = False\<rparr>"
  have "logging sh ?file None [] [] (?lg, d0)" using d0 by (simp add: logging_def)
  from tees_logging [OF assms(6) this, of "debug_lines sh opts 0 ?file"]
  obtain lg1 d1 where 1: "fold (tee sh) (debug_lines sh opts 0 ?file) (?lg, d0) = (lg1, d1)"
    and l1: "logging sh ?file None [] ?z0 (lg1, d1)" by (metis append_Nil dbg old.prod.exhaust)
  then have h1: "healthy d1" by (simp add: logging_def)
  obtain d2 where d2: "os_Create ?plain d1 = (None, d2)" "healthy d2" "data_at d2 ?plain = Some ''''"
    "\<And>q. Clean q \<noteq> Clean ?plain \<Longrightarrow> file_at d2 q = file_at d1 q"
    using create_healthy [OF h1 paths(5)] by metis
  have "logging sh ?file (Some ?plain) [] ?z0 (lg1\<lparr>lg_plain := Some ?plain\<rparr>, d2)"
    using l1 d2(2,3) d2(4) [of "?file @ ''.lock''"] paths(1) by (simp add: logging_def)
  from tees_logging [OF assms(6) this, of "debug_lines sh opts 1 ?plain"]
  obtain lg3 d3 where 3: "fold (tee sh) (debug_lines sh opts 1 ?plain) (lg1\<lparr>lg_plain := Some ?plain\<rparr>, d2) = (lg3, d3)"
    and l3: "logging sh ?file (Some ?plain) [] (?z0 @ ?z1) (lg3, d3)" by (metis append_Nil dbg old.prod.exhaust)
  obtain ws up e d4 where run3: "run d3 = (ws, up, e, d4)" by (metis prod_cases4)
  have h3: "healthy d3" using l3 by (simp add: logging_def)
  have "logging sh ?file (Some ?plain) [] (?z0 @ ?z1) (lg3, d4)"
    using l3 run [OF run3 h3] by (simp add: logging_def)
  from tees_logging [OF assms(6) this, of "ws @ report_lines sh e up"]
  obtain st where st: "fold (tee sh) (ws @ report_lines sh e up) (lg3, d4) = st"
    and ls: "logging sh ?file (Some ?plain) (stdout_of ws) (?z0 @ ?z1 @ map snd (ws @ report_lines sh e up)) st"
    by (simp add: rep)
  have r: "runc lb sh opts now run d = (e, runc_close sh sm st)"
    by (simp add: runc_def assms(2-4) Let_def d0(1) 1 d2(1) 3 [unfolded One_nat_def] run3 del: fold_append) (simp only: st)
  have "data_at (snd st) ?plain = Some (stdout_of ws)" using ls by (cases st) (simp add: logging_def)
  with runc_close_publishes [OF ls paths(4,2), of sm] paths(1,3) r h3 run3 show ?thesis
    by (intro exI [of _ d3] exI [of _ ws] exI [of _ up] exI [of _ e] exI [of _ d4]) (simp add: Let_def)
qed

definition sample_shell :: shell where
  "sample_shell = \<lparr>sh_seconds = (\<lambda>t. ''T''), sh_gzip = (\<lambda>a b. b), sh_gzend = (\<lambda>a. ''.''), sh_up = (\<lambda>k. ''1s''),
     sh_error = (\<lambda>e. ''bad''), sh_duration = (\<lambda>t. ''0s''), sh_stderr_ok = True\<rparr>"

end
