(* ===== verification/GoURL.thy ===== *)
theory GoURL
  imports GoStrings Prelude
begin

text \<open>
  \<open>net/url\<close> as far as the program uses it: \<open>url.Parse\<close> with the scheme, the opaque part, the path and
  the raw query of a reference, and \<open>url.ParseQuery\<close>. Whether the text between \<open>//\<close> and the next
  slash is an authority is left to the parameter \<open>authority_ok\<close>, as the program has no use for it.
  The errors are one value, \<open>err_url\<close>.
\<close>

definition err_url :: goerror where
  "err_url = ErrOther ''parse: invalid URL''"

record url =
  Scheme :: bytes
  Opaque :: bytes
  Path :: bytes
  RawQuery :: bytes

text \<open>\<open>strings.Cut\<close> at a separator of one byte.\<close>

definition Cut :: "bytes \<Rightarrow> char \<Rightarrow> bytes \<times> bytes" where
  "Cut s sep = (takeWhile (\<lambda>c. c \<noteq> sep) s, drop 1 (dropWhile (\<lambda>c. c \<noteq> sep) s))"

definition byte_of :: "char \<Rightarrow> nat" where
  "byte_of c = of_char c"

definition is_alpha :: "char \<Rightarrow> bool" where
  "is_alpha c \<longleftrightarrow> 97 \<le> byte_of c \<and> byte_of c \<le> 122 \<or> 65 \<le> byte_of c \<and> byte_of c \<le> 90"

definition is_digit :: "char \<Rightarrow> bool" where
  "is_digit c \<longleftrightarrow> 48 \<le> byte_of c \<and> byte_of c \<le> 57"

definition to_lower :: "char \<Rightarrow> char" where
  "to_lower c = (if 65 \<le> byte_of c \<and> byte_of c \<le> 90 then char_of (byte_of c + 32) else c)"

definition is_ctl :: "char \<Rightarrow> bool" where
  "is_ctl c \<longleftrightarrow> byte_of c < 32 \<or> byte_of c = 127"

text \<open>\<open>getScheme\<close>: the scheme read so far, and the rest. \<open>None\<close> is an error.\<close>

fun scheme_from :: "bytes \<Rightarrow> bytes \<Rightarrow> bytes \<Rightarrow> (bytes \<times> bytes) option" where
  "scheme_from raw sofar [] = Some ('''', raw)"
| "scheme_from raw sofar (c # cs) =
     (if is_alpha c then scheme_from raw (sofar @ [c]) cs
      else if is_digit c \<or> c = CHR ''+'' \<or> c = CHR ''-'' \<or> c = CHR ''.'' then
        (if sofar = '''' then Some ('''', raw) else scheme_from raw (sofar @ [c]) cs)
      else if c = CHR '':'' then (if sofar = '''' then None else Some (sofar, cs))
      else Some ('''', raw))"

definition hex_val :: "char \<Rightarrow> nat option" where
  "hex_val c =
     (let n = byte_of c in
      if 48 \<le> n \<and> n \<le> 57 then Some (n - 48)
      else if 97 \<le> n \<and> n \<le> 102 then Some (n - 87)
      else if 65 \<le> n \<and> n \<le> 70 then Some (n - 55)
      else None)"

text \<open>\<open>unescape\<close>; only in a query is a plus sign a space.\<close>

fun unescape :: "bool \<Rightarrow> bytes \<Rightarrow> bytes option" where
  "unescape query [] = Some ''''"
| "unescape query (c # cs) =
     (if c = CHR ''%'' then
        (case cs of
           a # b # ds \<Rightarrow>
             (case (hex_val a, hex_val b) of
                (Some m, Some n) \<Rightarrow> map_option (Cons (char_of (16 * m + n))) (unescape query ds)
              | _ \<Rightarrow> None)
         | _ \<Rightarrow> None)
      else map_option (Cons (if query \<and> c = CHR ''+'' then CHR '' '' else c)) (unescape query cs))"

definition set_path :: "(bytes \<Rightarrow> bool) \<Rightarrow> bytes \<Rightarrow> bytes \<Rightarrow> bytes \<Rightarrow> goerror + url" where
  "set_path authority_ok scheme rest query =
     (let slashes = HasPrefix rest ''//'' \<and> (scheme \<noteq> '''' \<or> \<not> HasPrefix rest ''///'');
          authority = takeWhile (\<lambda>c. c \<noteq> CHR ''/'') (drop 2 rest);
          rest = (if slashes then drop (2 + length authority) rest else rest)
      in if slashes \<and> \<not> authority_ok authority then Inl err_url
         else case unescape False rest of
           None \<Rightarrow> Inl err_url
         | Some path \<Rightarrow> Inr \<lparr>Scheme = scheme, Opaque = '''', Path = path, RawQuery = query\<rparr>)"

definition parse_nofrag :: "(bytes \<Rightarrow> bool) \<Rightarrow> bytes \<Rightarrow> goerror + url" where
  "parse_nofrag authority_ok raw =
     (if \<exists>c \<in> set raw. is_ctl c then Inl err_url
      else if raw = ''*'' then Inr \<lparr>Scheme = '''', Opaque = '''', Path = ''*'', RawQuery = ''''\<rparr>
      else case scheme_from raw '''' raw of
        None \<Rightarrow> Inl err_url
      | Some (scheme, rest) \<Rightarrow>
          let scheme = map to_lower scheme;
              (rest, query) = Cut rest (CHR ''?'')
          in if \<not> HasPrefix rest ''/'' \<and> scheme \<noteq> '''' then
               Inr \<lparr>Scheme = scheme, Opaque = rest, Path = '''', RawQuery = query\<rparr>
             else if \<not> HasPrefix rest ''/'' \<and> CHR '':'' \<in> set (fst (Cut rest (CHR ''/''))) then Inl err_url
             else set_path authority_ok scheme rest query)"

definition url_Parse :: "(bytes \<Rightarrow> bool) \<Rightarrow> bytes \<Rightarrow> goerror + url" where
  "url_Parse authority_ok raw =
     (let (u, frag) = Cut raw (CHR ''#'') in
      case parse_nofrag authority_ok u of
        Inl e \<Rightarrow> Inl e
      | Inr p \<Rightarrow> if unescape False frag = None then Inl err_url else Inr p)"

text \<open>One \<open>key=value\<close> of a query: nothing if it is empty, \<open>None\<close> if it is malformed.\<close>

definition query_pair :: "bytes \<Rightarrow> (bytes \<times> bytes) list option" where
  "query_pair s =
     (if CHR '';'' \<in> set s then None
      else if s = '''' then Some []
      else let (k, v) = Cut s (CHR ''='') in
        case (unescape True k, unescape True v) of
          (Some k, Some v) \<Rightarrow> Some [(k, v)]
        | _ \<Rightarrow> None)"

definition add_value :: "bytes \<times> bytes \<Rightarrow> (bytes \<times> bytes list) list \<Rightarrow> (bytes \<times> bytes list) list" where
  "add_value kv m =
     AList.update (fst kv) ((case map_of m (fst kv) of None \<Rightarrow> [] | Some vs \<Rightarrow> vs) @ [snd kv]) m"

text \<open>\<open>url.ParseQuery\<close>; on an error the caller here drops the values that could be read.\<close>

definition ParseQuery :: "bytes \<Rightarrow> goerror + (bytes \<times> bytes list) list" where
  "ParseQuery query =
     (let parts = map query_pair (Split query (CHR ''&'')) in
      if None \<in> set parts then Inl err_url
      else Inr (fold add_value (concat (map the parts)) []))"

section \<open>Facts\<close>

lemma Cut_plain: "sep \<notin> set s \<Longrightarrow> Cut (s @ sep # t) sep = (s, t)"
  by (induction s) (auto simp: Cut_def)

lemma Cut_none: "sep \<notin> set s \<Longrightarrow> Cut s sep = (s, '''')"
  by (induction s) (auto simp: Cut_def)

lemma unescape_plain: "CHR ''%'' \<notin> set s \<Longrightarrow> query \<longrightarrow> CHR ''+'' \<notin> set s \<Longrightarrow> unescape query s = Some s"
  by (induction s) auto

lemma scheme_from_read:
  "(\<And>c. c \<in> set s \<Longrightarrow> is_alpha c) \<Longrightarrow> sofar @ s \<noteq> [] \<Longrightarrow>
    scheme_from raw sofar (s @ CHR '':'' # t) = Some (sofar @ s, t)"
proof (induction s arbitrary: sofar)
  case Nil
  have "\<not> is_alpha (CHR '':'')" "\<not> is_digit (CHR '':'')" by (simp_all add: is_alpha_def is_digit_def byte_of_def)
  with Nil show ?case by simp
next
  case (Cons c s)
  then show ?case by simp
qed

text \<open>Characters without a meaning of their own in a reference.\<close>

definition url_plain :: "bytes \<Rightarrow> bool" where
  "url_plain s \<longleftrightarrow> list_all (\<lambda>c. \<not> is_ctl c \<and> c \<notin> set ''#?%&=;+'') s"

text \<open>An opaque reference with a query of one pair is read for what it says.\<close>

lemma parse_opaque:
  assumes "list_all is_alpha scheme" and "scheme \<noteq> ''''" and "map to_lower scheme = scheme"
    and "url_plain name" and "\<not> HasPrefix name ''/''"
    and "list_all (\<lambda>c. \<not> is_ctl c \<and> c \<noteq> CHR ''#'') query"
  shows "url_Parse authority_ok (scheme @ CHR '':'' # name @ CHR ''?'' # query) =
    Inr \<lparr>Scheme = scheme, Opaque = name, Path = '''', RawQuery = query\<rparr>"
proof -
  let ?raw = "scheme @ CHR '':'' # name @ CHR ''?'' # query"
  have alpha: "\<not> is_ctl c \<and> c \<noteq> CHR ''#'' \<and> c \<noteq> CHR ''*''" if "is_alpha c" for c
    using that by (auto simp: is_alpha_def is_ctl_def byte_of_def)
  have colon: "\<not> is_ctl (CHR '':'')" "\<not> is_ctl (CHR ''?'')" by (simp_all add: is_ctl_def byte_of_def)
  have chars: "CHR ''#'' \<notin> set ?raw" "\<not> (\<exists>c \<in> set ?raw. is_ctl c)" "?raw \<noteq> ''*''"
    using assms(1,2,4,6) alpha colon by (auto simp: list_all_iff url_plain_def append_eq_Cons_conv)
  have "scheme_from ?raw '''' ?raw = Some (scheme, name @ CHR ''?'' # query)"
    using scheme_from_read [of scheme "''''" ?raw "name @ CHR ''?'' # query"] assms(1,2) by (simp add: list_all_iff)
  moreover have "Cut (name @ CHR ''?'' # query) (CHR ''?'') = (name, query)"
    using assms(4) by (intro Cut_plain) (auto simp: url_plain_def list_all_iff)
  ultimately have "parse_nofrag authority_ok ?raw = Inr \<lparr>Scheme = scheme, Opaque = name, Path = '''', RawQuery = query\<rparr>"
    using chars assms(2,3,5) by (simp add: parse_nofrag_def Let_def)
  then show ?thesis using Cut_none [OF chars(1)] by (simp add: url_Parse_def)
qed

definition plus_spaces :: "bytes \<Rightarrow> bytes" where
  "plus_spaces v = map (\<lambda>c. if c = CHR ''+'' then CHR '' '' else c) v"

definition query_plain :: "bytes \<Rightarrow> bool" where
  "query_plain s \<longleftrightarrow> list_all (\<lambda>c. \<not> is_ctl c \<and> c \<notin> set ''#%&;'') s"

lemma unescape_plus: "CHR ''%'' \<notin> set s \<Longrightarrow> unescape True s = Some (plus_spaces s)"
  by (induction s) (auto simp: plus_spaces_def)

lemma ParseQuery_pair:
  assumes "url_plain k" and "k \<noteq> ''''" and "query_plain v"
  shows "ParseQuery (k @ CHR ''='' # v) = Inr [(k, [plus_spaces v])]"
proof -
  let ?q = "k @ CHR ''='' # v"
  have "CHR ''&'' \<notin> set ?q" "CHR '';'' \<notin> set ?q" "?q \<noteq> ''''"
    using assms by (auto simp: url_plain_def query_plain_def list_all_iff)
  moreover from this(1) have "Split ?q (CHR ''&'') = [?q]" by (rule Split_none)
  moreover have "Cut ?q (CHR ''='') = (k, v)" using assms(1) by (intro Cut_plain) (auto simp: url_plain_def list_all_iff)
  moreover have "unescape True k = Some k" "unescape True v = Some (plus_spaces v)"
    using assms by (auto simp: url_plain_def query_plain_def list_all_iff intro!: unescape_plain unescape_plus)
  ultimately show ?thesis by (simp add: ParseQuery_def query_pair_def add_value_def)
qed

end
