(* ===== verification/Commands.thy ===== *)
theory Commands
  imports Supervisor GoURL
begin

text \<open>
  The command line: \<open>public/cmd/lobby.go\<close> (the flags of \<open>snap-gs lobby\<close>, the environment, the set-up
  of the control groups and directories), \<open>public/cmd/root.go\<close> (exit codes) and
  \<open>cmd/snap-gs/main.go\<close>. \<open>flagset\<close> is what the flag library answers about a parsed command line;
  \<open>machine\<close> is the environment of the process. What the command does to the file system is the
  list of its calls, in order, and \<open>m_answer\<close> says how each of them ends.
\<close>

section \<open>Looking for the game\<close>

text \<open>The loops of \<open>init\<close>: the first match that is not empty ends them all.\<close>

fun first_exe :: "bytes \<Rightarrow> bytes list \<Rightarrow> bytes" where
  "first_exe exe [] = exe"
| "first_exe exe (m # ms) = (if exe = '''' then first_exe m ms else exe)"

fun try_tails :: "(bytes \<Rightarrow> bytes list) \<Rightarrow> bytes \<Rightarrow> bytes list \<Rightarrow> bytes \<Rightarrow> bytes" where
  "try_tails glob h [] exe = exe"
| "try_tails glob h (t # ts) exe =
     (if exe = '''' then try_tails glob h ts (first_exe exe (glob (h @ t))) else exe)"

fun try_heads :: "(bytes \<Rightarrow> bytes list) \<Rightarrow> bytes list \<Rightarrow> bytes list \<Rightarrow> bytes \<Rightarrow> bytes" where
  "try_heads glob ts [] exe = exe"
| "try_heads glob ts (h # hs) exe =
     (if exe = '''' then try_heads glob ts hs (try_tails glob h ts exe) else exe)"

definition linux_tails :: "bytes list" where
  "linux_tails = ''/snapshot*.x86_64'' # ''/snapshot*/snapshot*.x86_64'' #
     concat (map (\<lambda>s. [s @ ''/steamapps/common/Snapshot VR Dedicated Server/snapshot*.x86_64'',
                       s @ ''/steamapps/common/Snapshot VR Dedicated Server/snapshot*/snapshot*.x86_64''])
       ['''', ''/Steam'', ''/.steam'', ''/.steam/root'', ''/.steam/steam'', ''/.steam/debian-installation''])"

abbreviation (input) "backslash \<equiv> CHR 0x5C"

definition windows_tails :: "bytes list" where
  "windows_tails = map (map (\<lambda>c. if c = CHR ''/'' then backslash else c))
     [''/SnapshotVR.exe'', ''/steamapps/common/Snapshot VR/SnapshotVR.exe'',
      ''/Program Files*/steam/steamapps/common/Snapshot VR/SnapshotVR.exe'']"

definition search_heads :: "bytes \<Rightarrow> bytes list" where
  "search_heads h = (if h \<noteq> '''' then [h, ''.''] else [''.''])"

text \<open>\<open>exe\<close> is the value the variable was linked with.\<close>

definition default_exe :: "bytes \<Rightarrow> (bytes \<Rightarrow> bytes) \<Rightarrow> (bytes \<Rightarrow> bytes list) \<Rightarrow> bytes \<Rightarrow> bytes" where
  "default_exe goos env glob exe =
     (if goos = ''linux'' then try_heads glob linux_tails (search_heads (env ''HOME'')) exe
      else if goos = ''windows'' then try_heads glob windows_tails (search_heads (env ''SYSTEMDRIVE'')) exe
      else exe)"

section \<open>Flags and environment\<close>

datatype flag_value = FString bytes | FInt int | FDuration duration | FBool bool

definition lobby_flags :: "bytes \<Rightarrow> (bytes \<times> flag_value) list" where
  "lobby_flags exe =
     [(''session'', FString ''''), (''password'', FString ''''), (''flagdir'', FString ''''),
      (''specdir'', FString ''''), (''statdir'', FString ''''), (''logdir'', FString ''''),
      (''pidfile'', FString ''''), (''maxfails'', FInt 3), (''minuptime'', FDuration (5 * Minute)),
      (''admintimeout'', FDuration (15 * Minute)), (''timeout'', FDuration (15 * Hour)),
      (''listen'', FString ''''), (''exe'', FString exe), (''debug'', FBool False)]"

record flagset =
  fl_string :: "bytes \<Rightarrow> goerror + bytes"
  fl_int :: "bytes \<Rightarrow> goerror + int"
  fl_duration :: "bytes \<Rightarrow> goerror + duration"
  fl_bool :: "bytes \<Rightarrow> goerror + bool"
  fl_changed :: "bytes \<Rightarrow> bool"

definition err_flag :: goerror where
  "err_flag = ErrOther ''flag accessed but not defined''"

text \<open>The flag set of \<open>NewLobbyFlagSet\<close> after the flags in \<open>given\<close> were set.\<close>

definition parsed_flags :: "bytes \<Rightarrow> (bytes \<times> flag_value) list \<Rightarrow> flagset" where
  "parsed_flags exe given =
     (let val = (\<lambda>n. case map_of given n of Some v \<Rightarrow> Some v | None \<Rightarrow> map_of (lobby_flags exe) n) in
      \<lparr>fl_string = (\<lambda>n. case val n of Some (FString v) \<Rightarrow> Inr v | _ \<Rightarrow> Inl err_flag),
       fl_int = (\<lambda>n. case val n of Some (FInt v) \<Rightarrow> Inr v | _ \<Rightarrow> Inl err_flag),
       fl_duration = (\<lambda>n. case val n of Some (FDuration v) \<Rightarrow> Inr v | _ \<Rightarrow> Inl err_flag),
       fl_bool = (\<lambda>n. case val n of Some (FBool v) \<Rightarrow> Inr v | _ \<Rightarrow> Inl err_flag),
       fl_changed = (\<lambda>n. map_of given n \<noteq> None)\<rparr>)"

datatype sysop = MkdirAll bytes | WriteFile bytes bytes | WatchFlags bytes

record machine =
  m_env :: "bytes \<Rightarrow> bytes"
  m_duration :: "bytes \<Rightarrow> duration option"
  m_mounts :: "bytes \<times> goerror option"
  m_cgroup :: "bytes \<times> goerror option"
  m_pid :: int
  m_authority :: "bytes \<Rightarrow> bool"
  m_order :: "(bytes \<times> bytes list) list \<Rightarrow> (bytes \<times> bytes list) list"
  m_answer :: "sysop list \<Rightarrow> sysop \<Rightarrow> goerror option"

text \<open>A piece of the command: what it was given to do so far, and its result or the error that ends it.\<close>

type_synonym 'a act = "sysop list \<Rightarrow> (goerror + 'a) \<times> sysop list"

definition and_then :: "'a act \<Rightarrow> ('a \<Rightarrow> 'b act) \<Rightarrow> 'b act" where
  "and_then m f tr = (case m tr of (Inl e, tr) \<Rightarrow> (Inl e, tr) | (Inr v, tr) \<Rightarrow> f v tr)"

definition pass :: "goerror + 'a \<Rightarrow> 'a act" where
  "pass r tr = (r, tr)"

definition call :: "machine \<Rightarrow> sysop \<Rightarrow> unit act" where
  "call mc op tr = (case m_answer mc tr op of None \<Rightarrow> Inr () | Some e \<Rightarrow> Inl e, tr @ [op])"

definition call_if :: "bool \<Rightarrow> machine \<Rightarrow> sysop \<Rightarrow> unit act" where
  "call_if b mc op = (if b then call mc op else pass (Inr ()))"

definition string_option :: "machine \<Rightarrow> flagset \<Rightarrow> bytes \<Rightarrow> bytes \<Rightarrow> goerror + bytes" where
  "string_option mc fs name var =
     (case fl_string fs name of Inl e \<Rightarrow> Inl e
      | Inr v \<Rightarrow> Inr (if m_env mc var \<noteq> '''' \<and> \<not> fl_changed fs name then m_env mc var else v))"

definition bool_option :: "machine \<Rightarrow> flagset \<Rightarrow> bytes \<Rightarrow> bytes \<Rightarrow> goerror + bool" where
  "bool_option mc fs name var =
     (case fl_bool fs name of Inl e \<Rightarrow> Inl e
      | Inr v \<Rightarrow> Inr (if m_env mc var \<noteq> '''' \<and> \<not> fl_changed fs name then True else v))"

definition int_option :: "machine \<Rightarrow> flagset \<Rightarrow> bytes \<Rightarrow> bytes \<Rightarrow> goerror + int" where
  "int_option mc fs name var =
     (case fl_int fs name of Inl e \<Rightarrow> Inl e
      | Inr v \<Rightarrow> Inr (case ParseInt (m_env mc var) of (n, err) \<Rightarrow>
          if err = NoError \<and> \<not> fl_changed fs name then n else v))"

definition duration_option :: "machine \<Rightarrow> flagset \<Rightarrow> bytes \<Rightarrow> bytes \<Rightarrow> goerror + duration" where
  "duration_option mc fs name var =
     (case fl_duration fs name of Inl e \<Rightarrow> Inl e
      | Inr v \<Rightarrow> Inr (case m_duration mc (m_env mc var) of
          Some n \<Rightarrow> if fl_changed fs name then v else n | None \<Rightarrow> v))"

text \<open>Lines 107 to 188: every option from its flag or its variable, or the first error.\<close>

definition read_options :: "machine \<Rightarrow> flagset \<Rightarrow> lobby_options act" where
  "read_options mc fs =
     and_then (pass (string_option mc fs ''session'' ''SNAPGS_LOBBY_SESSION'')) (\<lambda>session.
     and_then (pass (string_option mc fs ''password'' ''SNAPGS_LOBBY_PASSWORD'')) (\<lambda>password.
     and_then (pass (string_option mc fs ''listen'' ''SNAPGS_LOBBY_LISTEN'')) (\<lambda>listen.
     and_then (pass (string_option mc fs ''pidfile'' ''SNAPGS_LOBBY_PIDFILE'')) (\<lambda>pidfile.
     and_then (pass (string_option mc fs ''exe'' ''SNAPGS_LOBBY_EXE'')) (\<lambda>exe.
     and_then (pass (bool_option mc fs ''debug'' ''SNAPGS_LOBBY_DEBUG'')) (\<lambda>debug.
     and_then (pass (int_option mc fs ''maxfails'' ''SNAPGS_LOBBY_MAXFAILS'')) (\<lambda>maxfails.
     and_then (pass (duration_option mc fs ''minuptime'' ''SNAPGS_LOBBY_MINUPTIME'')) (\<lambda>minuptime.
     and_then (pass (duration_option mc fs ''timeout'' ''SNAPGS_LOBBY_TIMEOUT'')) (\<lambda>timeout.
     and_then (pass (duration_option mc fs ''admintimeout'' ''SNAPGS_LOBBY_ADMINTIMEOUT'')) (\<lambda>admintimeout.
     and_then (pass (string_option mc fs ''logdir'' ''SNAPGS_LOBBY_LOGDIR'')) (\<lambda>logdir.
     and_then (pass (string_option mc fs ''specdir'' ''SNAPGS_LOBBY_SPECDIR'')) (\<lambda>specdir.
     and_then (pass (string_option mc fs ''statdir'' ''SNAPGS_LOBBY_STATDIR'')) (\<lambda>statdir.
     pass (Inr \<lparr>Debug = debug, Listen = listen, Session = session, Password = password, LogDir = logdir,
       SpecDir = specdir, StatDir = statdir, PidFile = pidfile, Exe = exe, Timeout = timeout,
       AdminTimeout = admintimeout, MaxFails = maxfails, MinUptime = minuptime\<rparr>))))))))))))))"

section \<open>The control group of the process\<close>

fun find_mount :: "bytes list \<Rightarrow> bytes" where
  "find_mount [] = ''/sys/fs/cgroup''"
| "find_mount (line # ls) =
     (let i = IndexByte line (CHR '' '') in
      if i < 1 then find_mount ls
      else if take (nat i) line \<noteq> ''cgroup2'' then find_mount ls
      else
        let rest = drop (nat i + 1) line;
            j = IndexByte rest (CHR '' '') + i + 1
        in if j < i + 2 then find_mount ls else take (nat (j - (i + 1))) rest)"

abbreviation (input) "LF \<equiv> CHR 0x0A"

definition own_cgroup :: "bytes \<Rightarrow> bytes" where
  "own_cgroup bs = TrimLeft (TrimRight bs [LF]) ''0:/''"

text \<open>Lines 221 to 243: the directory, and the error if one of the files could not be read.\<close>

definition cgroup_dir :: "machine \<Rightarrow> bytes \<times> goerror option" where
  "cgroup_dir mc =
     (let cgroup = find_mount (Split (fst (m_mounts mc)) LF) in
      case snd (m_mounts mc) of
        Some e \<Rightarrow> (cgroup, Some e)
      | None \<Rightarrow>
          (case m_cgroup mc of
             (bs, Some e) \<Rightarrow> (cgroup, Some e)
           | (bs, None) \<Rightarrow> (PJoin [cgroup, own_cgroup bs], None)))"

section \<open>Pid files\<close>

fun write_values :: "machine \<Rightarrow> bytes \<Rightarrow> (bytes \<times> bytes) list \<Rightarrow> unit act" where
  "write_values mc path [] = pass (Inr ())"
| "write_values mc path ((k, v) # kvs) =
     and_then (call mc (WriteFile (PJoin [path, k]) v)) (\<lambda>_. write_values mc path kvs)"

definition values_of :: "machine \<Rightarrow> (bytes \<times> bytes list) list \<Rightarrow> (bytes \<times> bytes) list" where
  "values_of mc q = concat (map (\<lambda>(k, vs). map (Pair k) vs) (m_order mc q))"

definition set_up_cgroup :: "machine \<Rightarrow> bytes \<Rightarrow> bool \<Rightarrow> bytes \<Rightarrow> bytes \<Rightarrow> bytes \<Rightarrow> unit act" where
  "set_up_cgroup mc cgroup first path pidfile query =
     and_then (call_if first mc (WriteFile pidfile (Itoa (m_pid mc)))) (\<lambda>_.
     and_then (call_if first mc (WriteFile (PJoin [cgroup, ''cgroup.subtree_control'']) ''+cpu'')) (\<lambda>_.
     and_then (pass (ParseQuery query)) (\<lambda>q.
     write_values mc path (values_of mc q))))"

text \<open>One entry of the list: its new text.\<close>

definition pidfile_entry :: "machine \<Rightarrow> bytes \<times> goerror option \<Rightarrow> bool \<Rightarrow> bytes \<Rightarrow> bytes act" where
  "pidfile_entry mc cg first pidfile =
     and_then (pass (url_Parse (m_authority mc) pidfile)) (\<lambda>p.
       let is_cgroup = (Scheme p = ''cgroup'');
           path = (if is_cgroup then PJoin [fst cg, Opaque p] else Path p);
           pidfile = (if is_cgroup then PJoin [path, ''cgroup.procs''] else pidfile)
       in case (is_cgroup, snd cg) of
            (True, Some e) \<Rightarrow> pass (Inl e)
          | _ \<Rightarrow>
              if path = '''' then pass (Inr pidfile)
              else and_then (call mc (MkdirAll path)) (\<lambda>_.
                if \<not> is_cgroup then pass (Inr pidfile)
                else and_then (set_up_cgroup mc (fst cg) first path pidfile (RawQuery p)) (\<lambda>_. pass (Inr pidfile))))"

fun pidfile_entries :: "machine \<Rightarrow> bytes \<times> goerror option \<Rightarrow> bool \<Rightarrow> bytes list \<Rightarrow> bytes list act" where
  "pidfile_entries mc cg first [] = pass (Inr [])"
| "pidfile_entries mc cg first (p # ps) =
     and_then (pidfile_entry mc cg first p) (\<lambda>p'.
     and_then (pidfile_entries mc cg False ps) (\<lambda>ps'. pass (Inr (p' # ps'))))"

abbreviation (input) "comma_byte \<equiv> CHR 0x2C"

text \<open>Lines 189 to 286: the directories, the watch on the flag directory and the pid files.\<close>

definition prepare :: "machine \<Rightarrow> flagset \<Rightarrow> lobby_options act" where
  "prepare mc fs =
     and_then (read_options mc fs) (\<lambda>opts.
     and_then (call_if (LogDir opts \<noteq> '''') mc (MkdirAll (LogDir opts))) (\<lambda>_.
     and_then (call_if (SpecDir opts \<noteq> '''') mc (MkdirAll (SpecDir opts))) (\<lambda>_.
     and_then (call_if (StatDir opts \<noteq> '''') mc (MkdirAll (StatDir opts))) (\<lambda>_.
     and_then (pass (string_option mc fs ''flagdir'' ''SNAPGS_LOBBY_FLAGDIR'')) (\<lambda>flagdir.
     and_then (call_if (flagdir \<noteq> '''') mc (MkdirAll flagdir)) (\<lambda>_.
     and_then (call_if (flagdir \<noteq> '''') mc (WatchFlags flagdir)) (\<lambda>_.
     and_then (pidfile_entries mc (cgroup_dir mc) True (Split (PidFile opts) comma_byte)) (\<lambda>pidfiles.
     pass (Inr (opts\<lparr>PidFile := Join pidfiles [comma_byte]\<rparr>))))))))))"

text \<open>\<open>run\<close> is the loop of \<open>Supervisor\<close> on the options.\<close>

definition RunE :: "machine \<Rightarrow> flagset \<Rightarrow> (lobby_options \<Rightarrow> goerror option) \<Rightarrow> goerror option \<times> sysop list" where
  "RunE mc fs run = (case prepare mc fs [] of (Inl e, tr) \<Rightarrow> (Some e, tr) | (Inr opts, tr) \<Rightarrow> (run opts, tr))"

section \<open>Exit codes\<close>

definition ExitCode :: "goerror option \<Rightarrow> nat" where
  "ExitCode err =
     (case err of None \<Rightarrow> 0
      | Some ErrLobbyDone \<Rightarrow> 0
      | Some ErrLobbyDowned \<Rightarrow> 4
      | Some ErrLobbyStopped \<Rightarrow> 5
      | Some ErrLobbyRestarted \<Rightarrow> 6
      | Some ErrLobbyDisconnected \<Rightarrow> 7
      | Some ErrLobbyBad \<Rightarrow> 70
      | Some ErrLobbyMaxFails \<Rightarrow> 100
      | Some ErrLobbyTimeout \<Rightarrow> 101
      | Some ErrLobbyIdleTimeout \<Rightarrow> 102
      | Some ErrLobbyAdminTimeout \<Rightarrow> 103
      | Some _ \<Rightarrow> 1)"

text \<open>\<open>mainc\<close> with the signals the process has received: \<open>notified\<close> is \<open>signal.NotifyContext\<close>, a context
  that is done when its parent is or one of its signals has come, and the soft context is the child
  of the hard one. Being told to terminate is no failure.\<close>

datatype os_signal = SIGHUP | SIGINT | SIGQUIT | SIGTERM

definition notified :: "bool \<Rightarrow> os_signal list \<Rightarrow> os_signal list \<Rightarrow> bool" where
  "notified parent which sigs \<longleftrightarrow> parent \<or> list_ex (\<lambda>s. s \<in> set which) sigs"

definition hardctx :: "os_signal list \<Rightarrow> bool" where
  "hardctx sigs = notified False [SIGQUIT, SIGINT, SIGHUP] sigs"

definition softctx :: "os_signal list \<Rightarrow> bool" where
  "softctx sigs = notified (hardctx sigs) [SIGTERM] sigs"

definition mainc :: "os_signal list \<Rightarrow> goerror option \<Rightarrow> goerror option" where
  "mainc sigs err = (if err \<noteq> None \<and> \<not> hardctx sigs \<and> softctx sigs then None else err)"

text \<open>What \<open>main\<close> writes to standard error, with the time stamp \<open>up\<close> and the text \<open>show\<close> of an error, and
  the exit code.\<close>

definition main :: "bytes \<Rightarrow> (goerror \<Rightarrow> bytes) \<Rightarrow> os_signal list \<Rightarrow> goerror option \<Rightarrow> bytes list \<times> nat" where
  "main up text sigs err =
     (case mainc sigs err of
        None \<Rightarrow> ([], 0)
      | Some e \<Rightarrow> (Errorf up (''main: error: '' @ text e) [ErrorArg e], ExitCode (Some e)))"

text \<open>\<open>init\<close>: the seed of \<open>math/rand\<close>, eight random bytes in little endian order as an \<open>int64\<close>; \<open>None\<close> is
  the panic if there are none.\<close>

fun le_uint :: "bytes \<Rightarrow> nat" where
  "le_uint [] = 0"
| "le_uint (b # bs) = of_char b + 256 * le_uint bs"

definition init_seed :: "goerror + bytes \<Rightarrow> int option" where
  "init_seed r = (case r of Inl _ \<Rightarrow> None | Inr b \<Rightarrow> Some (wrap64 (int (le_uint b))))"

lemma le_uint_less: "le_uint bs < 256 ^ length bs"
proof (induction bs)
  case (Cons b bs)
  have "le_uint (b # bs) < 256 + 256 * le_uint bs" by simp
  also have "\<dots> = 256 * (le_uint bs + 1)" by simp
  also have "\<dots> \<le> 256 * 256 ^ length bs" using Cons by (intro mult_le_mono2) simp
  finally show ?case by simp
qed simp

lemma base_256:
  assumes "(x :: nat) < 256" and "y < 256" and "x + 256 * m = y + 256 * n"
  shows "x = y \<and> m = n"
proof -
  have "x = (x + 256 * m) mod 256" "y = (y + 256 * n) mod 256" using assms(1,2) by simp_all
  then have "x = y" using assms(3) by simp
  with assms(3) show ?thesis by simp
qed

lemma le_uint_inj: "length as = length bs \<Longrightarrow> le_uint as = le_uint bs \<Longrightarrow> as = bs"
proof (induction as bs rule: list_induct2)
  case (Cons a as b bs)
  have "(of_char a :: nat) = of_char b \<and> le_uint as = le_uint bs"
    by (rule base_256) (use Cons.prems in simp_all)
  then show ?case using Cons.IH by simp
qed simp

text \<open>Every random value gives a seed of its own: none of the 64 bits is lost.\<close>

lemma seeds_distinct:
  assumes "length a = 8" and "length b = 8" and "init_seed (Inr a) = init_seed (Inr b)"
  shows "a = b"
proof -
  have r: "le_uint a < 2 ^ 64" "le_uint b < 2 ^ 64"
    using le_uint_less [of a] le_uint_less [of b] assms(1,2) by simp_all
  then have "int (le_uint a) mod 2 ^ 64 = int (le_uint a)" "int (le_uint b) mod 2 ^ 64 = int (le_uint b)"
    by simp_all
  moreover have "(int (le_uint a) + 2 ^ 63) mod 2 ^ 64 = (int (le_uint b) + 2 ^ 63) mod 2 ^ 64"
    using assms(3) by (simp add: init_seed_def wrap64_def)
  then have "int (le_uint a) mod 2 ^ 64 = int (le_uint b) mod 2 ^ 64" by (metis mod_add_right_eq add_diff_cancel_right' mod_diff_left_eq)
  ultimately have "le_uint a = le_uint b" by simp
  then show ?thesis using le_uint_inj assms(1,2) by simp
qed

text \<open>The version shown: the revision among the settings of the build, or the module's version.\<close>

fun revision :: "bytes \<Rightarrow> (bytes \<times> bytes) list \<Rightarrow> bytes" where
  "revision v [] = v"
| "revision v ((k, w) # kvs) = (if k = ''vcs.revision'' then w else revision v kvs)"

definition version :: "(bytes \<times> (bytes \<times> bytes) list) option \<Rightarrow> bytes" where
  "version info = (case info of None \<Rightarrow> '''' | Some (v, settings) \<Rightarrow> revision v settings)"

section \<open>Facts about the parts\<close>

definition first_nonempty :: "bytes list \<Rightarrow> bytes" where
  "first_nonempty ms = (case find (\<lambda>m. m \<noteq> '''') ms of None \<Rightarrow> '''' | Some m \<Rightarrow> m)"

lemma first_nonempty_append:
  "first_nonempty (xs @ ys) = (if first_nonempty xs = '''' then first_nonempty ys else first_nonempty xs)"
  by (induction xs) (simp_all add: first_nonempty_def)

lemma first_exe_eq: "first_exe exe ms = (if exe = '''' then first_nonempty ms else exe)"
  by (induction ms arbitrary: exe) (simp_all add: first_nonempty_def)

lemma try_tails_eq:
  "try_tails glob h ts exe = (if exe = '''' then first_nonempty (concat (map (\<lambda>t. glob (h @ t)) ts)) else exe)"
  by (induction ts arbitrary: exe) (simp_all add: first_exe_eq first_nonempty_append, simp add: first_nonempty_def)

text \<open>The loops find the first match that is not empty, in the order of the heads and then the tails.\<close>

lemma try_heads_eq:
  "try_heads glob ts hs exe =
    (if exe = '''' then first_nonempty (concat (map (\<lambda>h. concat (map (\<lambda>t. glob (h @ t)) ts)) hs)) else exe)"
  by (induction hs arbitrary: exe) (simp_all add: try_tails_eq first_nonempty_append, simp add: first_nonempty_def)

text \<open>The mount point is the second field of the first line of type \<open>cgroup2\<close>.\<close>

definition mount_of :: "bytes \<Rightarrow> bytes option" where
  "mount_of line =
     (if HasPrefix line ''cgroup2 '' then
        let (p, rest) = Cut (drop 8 line) (CHR '' '') in
        if p \<noteq> '''' \<and> CHR '' '' \<in> set (drop 8 line) then Some p else None
      else None)"

lemma Index_byte: "Index s [c] = (if c \<in> set s then int (length (takeWhile (\<lambda>x. x \<noteq> c) s)) else -1)"
  by (induction s) (auto simp: Let_def)

lemma find_mount_eq:
  "find_mount ls = (case find (\<lambda>l. mount_of l \<noteq> None) ls of None \<Rightarrow> ''/sys/fs/cgroup'' | Some l \<Rightarrow> the (mount_of l))"
proof (induction ls)
  case Nil
  show ?case by simp
next
  case (Cons line ls)
  let ?sp = "CHR '' ''"
  have "find_mount (line # ls) = (case mount_of line of None \<Rightarrow> find_mount ls | Some p \<Rightarrow> p)"
  proof (cases "?sp \<in> set line")
    case False
    then have "\<not> HasPrefix line ''cgroup2 ''" by (auto simp: HasPrefix_iff)
    with False show ?thesis by (simp add: mount_of_def IndexByte_def Index_byte Let_def)
  next
    case True
    then obtain w rest where line: "line = w @ ?sp # rest" and w: "?sp \<notin> set w" by (metis split_list_first)
    have tw: "takeWhile (\<lambda>c. c \<noteq> ?sp) line = w" unfolding line using w by (induction w) auto
    then have i: "IndexByte line ?sp = int (length w)" by (simp add: IndexByte_def Index_byte True)
    have t: "take (nat (int (length w))) line = w" "drop (nat (int (length w)) + 1) line = rest" by (simp_all add: line)
    have pre: "HasPrefix line ''cgroup2 '' \<longleftrightarrow> w = ''cgroup2''"
    proof
      assume "HasPrefix line ''cgroup2 ''"
      then have "takeWhile (\<lambda>c. c \<noteq> ?sp) line = ''cgroup2''" by (auto simp: HasPrefix_iff)
      then show "w = ''cgroup2''" by (simp only: tw)
    qed (simp add: line)
    let ?p = "takeWhile (\<lambda>c. c \<noteq> ?sp) rest"
    have fm: "find_mount (line # ls) =
        (if int (length w) < 1 then find_mount ls else if w \<noteq> ''cgroup2'' then find_mount ls
         else if IndexByte rest ?sp < 1 then find_mount ls else take (nat (IndexByte rest ?sp)) rest)"
      by (simp only: find_mount.simps Let_def i t) simp
    have j: "IndexByte rest ?sp = (if ?sp \<in> set rest then int (length ?p) else -1)"
      by (simp add: IndexByte_def Index_byte)
    have p: "take (length ?p) rest = ?p" by (rule takeWhile_eq_take [symmetric])
    show ?thesis
    proof (cases "w = ''cgroup2''")
      case False
      with pre show ?thesis unfolding fm by (simp add: mount_of_def)
    next
      case True
      then have "drop 8 line = rest" by (simp add: line)
      then have "mount_of line = (if ?p \<noteq> '''' \<and> ?sp \<in> set rest then Some ?p else None)"
        using pre True by (simp add: mount_of_def Cut_def)
      moreover have "find_mount (line # ls) = (if ?p \<noteq> '''' \<and> ?sp \<in> set rest then ?p else find_mount ls)"
        unfolding fm j using True p by auto
      ultimately show ?thesis by (simp del: find_mount.simps)
    qed
  qed
  with Cons.IH show ?case by (auto simp del: find_mount.simps split: option.split)
qed

text \<open>All zeros at the start of the group's own path go, not only those of the prefix \<open>0::/\<close>.\<close>

lemma own_cgroup_drops_zeros: "own_cgroup ''0::/0day.slice'' = ''day.slice''"
  by code_simp

section \<open>Calls that fail\<close>

text \<open>A piece of the command is careful if, started after calls that all went well, it makes no call after
  one that failed and ends with the error of that call.\<close>

definition all_went_well :: "machine \<Rightarrow> sysop list \<Rightarrow> bool" where
  "all_went_well mc tr \<longleftrightarrow> list_all (\<lambda>i. m_answer mc (take i tr) (tr ! i) = None) [0..<length tr]"

definition stopped_by :: "machine \<Rightarrow> goerror \<Rightarrow> sysop list \<Rightarrow> bool" where
  "stopped_by mc e tr \<longleftrightarrow> (\<exists>ok op. tr = ok @ [op] \<and> all_went_well mc ok \<and> m_answer mc ok op = Some e)"

definition careful :: "machine \<Rightarrow> 'a act \<Rightarrow> bool" where
  "careful mc m \<longleftrightarrow> (\<forall>tr. all_went_well mc tr \<longrightarrow>
     (case m tr of (Inr v, tr') \<Rightarrow> all_went_well mc tr' | (Inl e, tr') \<Rightarrow> all_went_well mc tr' \<or> stopped_by mc e tr'))"

lemma well_snoc: "all_went_well mc (tr @ [op]) \<longleftrightarrow> all_went_well mc tr \<and> m_answer mc tr op = None"
  by (auto simp: all_went_well_def list_all_iff nth_append)

named_theorems careful_intros \<open>pieces of a command that are careful\<close>

lemma careful_pass [careful_intros]: "careful mc (pass r)"
  by (cases r) (simp_all add: careful_def pass_def)

lemma careful_call [careful_intros]: "careful mc (call mc op)"
  by (auto simp: careful_def call_def well_snoc stopped_by_def split: option.split)

lemma careful_call_if [careful_intros]: "careful mc (call_if b mc op)"
  by (simp add: call_if_def careful_intros)

lemma careful_then [careful_intros]:
  assumes "careful mc m" and "\<And>v. careful mc (f v)"
  shows "careful mc (and_then m f)"
  unfolding careful_def
proof (intro allI impI)
  fix tr assume "all_went_well mc tr"
  with assms(1) have m: "case m tr of (Inr v, tr') \<Rightarrow> all_went_well mc tr' | (Inl e, tr') \<Rightarrow> all_went_well mc tr' \<or> stopped_by mc e tr'"
    by (simp add: careful_def)
  obtain r tr' where r: "m tr = (r, tr')" by fastforce
  show "case and_then m f tr of (Inr v, tr') \<Rightarrow> all_went_well mc tr' | (Inl e, tr') \<Rightarrow> all_went_well mc tr' \<or> stopped_by mc e tr'"
  proof (cases r)
    case (Inl e)
    with m r show ?thesis by (simp add: and_then_def)
  next
    case (Inr v)
    with m r have "all_went_well mc tr'" by simp
    with assms(2) [of v] show ?thesis by (simp add: and_then_def r Inr careful_def)
  qed
qed

lemma careful_write_values [careful_intros]: "careful mc (write_values mc path kvs)"
  by (induction mc path kvs rule: write_values.induct) (auto intro: careful_intros)

lemma careful_entry [careful_intros]: "careful mc (pidfile_entry mc cg first p)"
  unfolding pidfile_entry_def set_up_cgroup_def Let_def
  by (intro careful_intros) (auto intro!: careful_intros split: option.split bool.split)

lemma careful_entries [careful_intros]: "careful mc (pidfile_entries mc cg first ps)"
  by (induction ps arbitrary: first) (auto intro!: careful_intros)

lemma careful_prepare [careful_intros]: "careful mc (prepare mc fs)"
  unfolding prepare_def read_options_def by (intro careful_intros)


section \<open>The control group of a lobby\<close>

lemma call_good: "(\<And>tr. m_answer mc tr op = None) \<Longrightarrow> call mc op tr = (Inr (), tr @ [op])"
  by (simp add: call_def)

lemma mset_single_order: "mset (f [x]) = mset [x] \<Longrightarrow> f [x] = [x]"
  by (metis mset_single_iff_right)

text \<open>C30. A pid file \<open>cgroup:NAME?KEY=VALUE\<close> sets up that control group: its directory is made under the
  group of the process, for the first pid file the process is moved into it and the cpu controller is
  passed on, the key is written with its value, where a plus sign stands for a blank, and the pid file
  becomes the list of processes of the group.\<close>

theorem cgroup_pidfile_set_up:
  assumes "\<And>tr op. m_answer mc tr op = None" and "\<And>q. mset (m_order mc q) = mset q"
    and "url_plain name" and "\<not> HasPrefix name ''/''" and "url_plain key" and "key \<noteq> ''''" and "query_plain value"
    and "PJoin [cgroup, name] \<noteq> ''''"
  shows "let dir = PJoin [cgroup, name]; procs = PJoin [dir, ''cgroup.procs''] in
    pidfile_entry mc (cgroup, None) first (''cgroup:'' @ name @ ''?'' @ key @ ''='' @ value) tr =
      (Inr procs,
       tr @ [MkdirAll dir]
         @ (if first then [WriteFile procs (Itoa (m_pid mc)),
              WriteFile (PJoin [cgroup, ''cgroup.subtree_control'']) ''+cpu''] else [])
         @ [WriteFile (PJoin [dir, key]) (plus_spaces value)])"
proof -
  have eq: "\<not> is_ctl (CHR ''='')" by (simp add: is_ctl_def byte_of_def)
  have q: "list_all (\<lambda>c. \<not> is_ctl c \<and> c \<noteq> CHR ''#'') (key @ ''='' @ value)"
    using assms(5,7) eq by (auto simp: list_all_iff url_plain_def query_plain_def)
  have "list_all is_alpha ''cgroup''" "map to_lower ''cgroup'' = ''cgroup''"
    by (simp_all add: is_alpha_def to_lower_def byte_of_def)
  from parse_opaque [OF this(1) _ this(2) assms(3,4) q, of "m_authority mc"]
  have u: "url_Parse (m_authority mc) (''cgroup:'' @ name @ ''?'' @ key @ ''='' @ value) =
      Inr \<lparr>Scheme = ''cgroup'', Opaque = name, Path = '''', RawQuery = key @ ''='' @ value\<rparr>" by simp
  have p: "ParseQuery (key @ ''='' @ value) = Inr [(key, [plus_spaces value])]"
    using ParseQuery_pair [OF assms(5-7)] by simp
  have v: "values_of mc [(key, [plus_spaces value])] = [(key, plus_spaces value)]"
    using mset_single_order [of "m_order mc" "(key, [plus_spaces value])"] assms(2) by (simp add: values_of_def)
  note c = call_good [OF assms(1)]
  show ?thesis
    unfolding Let_def pidfile_entry_def set_up_cgroup_def
    by (simp only: u and_then_def pass_def sum.case prod.case url.select_convs call_if_def)
      (simp add: assms(8) and_then_def pass_def c p [simplified] v)
qed

text \<open>The first pid file of the systemd unit in \<open>etc\<close>.\<close>

definition sample_machine :: machine where
  "sample_machine = \<lparr>m_env = (\<lambda>v. ''''), m_duration = (\<lambda>v. None), m_mounts = (''cgroup2 /cg cgroup2 rw'', None),
     m_cgroup = (''0::/system.slice'' @ [LF], None), m_pid = 42, m_authority = (\<lambda>a. True), m_order = (\<lambda>q. q),
     m_answer = (\<lambda>tr op. None)\<rparr>"

theorem cgroup_pidfile_set_up_witness:
  "pidfile_entry sample_machine (''/cg/system.slice'', None) True ''cgroup:main?cpu.max=max+1000'' [] =
    (Inr ''/cg/system.slice/main/cgroup.procs'',
     [MkdirAll ''/cg/system.slice/main'', WriteFile ''/cg/system.slice/main/cgroup.procs'' ''42'',
      WriteFile ''/cg/system.slice/cgroup.subtree_control'' ''+cpu'',
      WriteFile ''/cg/system.slice/main/cpu.max'' ''max 1000''])"
proof -
  have s: "m_answer sample_machine tr op = None" "mset (m_order sample_machine q) = mset q" "m_pid sample_machine = 42" for tr op q
    by (simp_all add: sample_machine_def)
  have u: "url_plain ''main''" "\<not> HasPrefix ''main'' ''/''" "url_plain ''cpu.max''" "query_plain ''max+1000''"
    by code_simp+
  have p: "PJoin [''/cg/system.slice'', ''main''] = ''/cg/system.slice/main''"
    "PJoin [''/cg/system.slice/main'', ''cgroup.procs''] = ''/cg/system.slice/main/cgroup.procs''"
    "PJoin [''/cg/system.slice'', ''cgroup.subtree_control''] = ''/cg/system.slice/cgroup.subtree_control''"
    "PJoin [''/cg/system.slice/main'', ''cpu.max''] = ''/cg/system.slice/main/cpu.max''"
    "Itoa 42 = ''42''" "plus_spaces ''max+1000'' = ''max 1000''"
    by code_simp+
  from cgroup_pidfile_set_up [OF s(1,2) u(1,2,3) _ u(4), of "''/cg/system.slice''" True "[]"]
  show ?thesis by (simp add: p s(3) Let_def)
qed

text \<open>A plain path, as the help of the flag names it, is made a directory, which no pid can be written to.\<close>

lemma plain_pidfile_becomes_a_directory:
  "pidfile_entry sample_machine cg True ''/run/lobby.pid'' [] = (Inr ''/run/lobby.pid'', [MkdirAll ''/run/lobby.pid''])"
proof -
  have "url_Parse (m_authority sample_machine) ''/run/lobby.pid'' =
      Inr \<lparr>Scheme = '''', Opaque = '''', Path = ''/run/lobby.pid'', RawQuery = ''''\<rparr>" by code_simp
  then show ?thesis
    by (simp add: pidfile_entry_def and_then_def pass_def call_def sample_machine_def Let_def split: option.split)
qed

section \<open>Flags have their types\<close>

fun same_kind :: "flag_value \<Rightarrow> flag_value \<Rightarrow> bool" where
  "same_kind (FString a) (FString b) = True"
| "same_kind (FInt a) (FInt b) = True"
| "same_kind (FDuration a) (FDuration b) = True"
| "same_kind (FBool a) (FBool b) = True"
| "same_kind a b = False"

definition well_typed :: "bytes \<Rightarrow> (bytes \<times> flag_value) list \<Rightarrow> bool" where
  "well_typed exe given \<longleftrightarrow>
     list_all (\<lambda>(n, v). case map_of (lobby_flags exe) n of None \<Rightarrow> False | Some w \<Rightarrow> same_kind v w) given"

definition flag_val :: "bytes \<Rightarrow> (bytes \<times> flag_value) list \<Rightarrow> bytes \<Rightarrow> flag_value option" where
  "flag_val exe given n = (case map_of given n of Some v \<Rightarrow> Some v | None \<Rightarrow> map_of (lobby_flags exe) n)"

fun_cases same_kind_string: "same_kind v (FString b)" and same_kind_int: "same_kind v (FInt b)"
  and same_kind_duration: "same_kind v (FDuration b)" and same_kind_bool: "same_kind v (FBool b)"

lemma flag_val_kind:
  assumes "well_typed exe given" and "map_of (lobby_flags exe) n = Some w"
  shows "\<exists>v. flag_val exe given n = Some v \<and> same_kind v w"
proof (cases "map_of given n")
  case None
  then show ?thesis using assms(2) by (cases w) (simp_all add: flag_val_def)
next
  case (Some v)
  then have "(n, v) \<in> set given" by (rule map_of_SomeD)
  with assms Some show ?thesis by (auto simp: well_typed_def list_all_iff flag_val_def)
qed

text \<open>A declared flag of the right type is read without an error.\<close>

definition declared :: "bytes \<Rightarrow> flag_value \<Rightarrow> bytes \<Rightarrow> bool" where
  "declared exe k n = (case map_of (lobby_flags exe) n of None \<Rightarrow> False | Some w \<Rightarrow> same_kind w k)"

lemma getter_isl [simp]:
  "isl (string_option mc fs n var) = isl (fl_string fs n)" "isl (int_option mc fs n var) = isl (fl_int fs n)"
  "isl (duration_option mc fs n var) = isl (fl_duration fs n)" "isl (bool_option mc fs n var) = isl (fl_bool fs n)"
  by (simp_all add: string_option_def int_option_def duration_option_def bool_option_def split: sum.split)

lemma read_declared:
  assumes "well_typed exe given"
  shows "declared exe (FString []) n \<Longrightarrow> \<not> isl (fl_string (parsed_flags exe given) n)"
    and "declared exe (FInt 0) n \<Longrightarrow> \<not> isl (fl_int (parsed_flags exe given) n)"
    and "declared exe (FDuration 0) n \<Longrightarrow> \<not> isl (fl_duration (parsed_flags exe given) n)"
    and "declared exe (FBool False) n \<Longrightarrow> \<not> isl (fl_bool (parsed_flags exe given) n)"
proof -
  have v: "\<exists>v. flag_val exe given n = Some v \<and> same_kind v k" if k: "declared exe k n" for k
  proof -
    obtain w where w: "map_of (lobby_flags exe) n = Some w" "same_kind w k"
      using k by (auto simp: declared_def split: option.splits)
    obtain v where "flag_val exe given n = Some v" "same_kind v w" using flag_val_kind [OF assms w(1)] by blast
    with w(2) show ?thesis by (cases v; cases w; cases k; simp)
  qed
  note p = parsed_flags_def flag_val_def [symmetric] Let_def
  show "declared exe (FString []) n \<Longrightarrow> \<not> isl (fl_string (parsed_flags exe given) n)"
    by (drule v) (auto simp: p elim!: same_kind_string)
  show "declared exe (FInt 0) n \<Longrightarrow> \<not> isl (fl_int (parsed_flags exe given) n)"
    by (drule v) (auto simp: p elim!: same_kind_int)
  show "declared exe (FDuration 0) n \<Longrightarrow> \<not> isl (fl_duration (parsed_flags exe given) n)"
    by (drule v) (auto simp: p elim!: same_kind_duration)
  show "declared exe (FBool False) n \<Longrightarrow> \<not> isl (fl_bool (parsed_flags exe given) n)"
    by (drule v) (auto simp: p elim!: same_kind_bool)
qed

lemma then_pass: "\<not> isl r \<Longrightarrow> and_then (pass r) f = f (projr r)"
  by (cases r) (simp_all add: and_then_def pass_def fun_eq_iff)

lemma lobby_flags_declared:
  "list_all (declared exe (FString [])) [''session'', ''password'', ''flagdir'', ''specdir'', ''statdir'', ''logdir'', ''pidfile'', ''listen'', ''exe'']"
  "list_all (declared exe (FDuration 0)) [''minuptime'', ''admintimeout'', ''timeout'']"
  "declared exe (FInt 0) ''maxfails''" "declared exe (FBool False) ''debug''"
  by (simp_all add: declared_def lobby_flags_def)

text \<open>C36. Every flag the command reads is one it declares, with the type it is read at: whatever flags
  were given with values of their types, and whatever is in the environment, reading the options
  succeeds.\<close>

theorem options_are_well_typed:
  assumes "well_typed exe given"
  shows "\<exists>opts flagdir. read_options mc (parsed_flags exe given) tr = (Inr opts, tr)
    \<and> string_option mc (parsed_flags exe given) ''flagdir'' ''SNAPGS_LOBBY_FLAGDIR'' = Inr flagdir"
proof -
  note d = lobby_flags_declared [of exe, simplified]
  note r = read_declared [OF assms]
  have "\<exists>opts. read_options mc (parsed_flags exe given) tr = (Inr opts, tr)"
    unfolding read_options_def by (simp add: then_pass r d) (simp add: pass_def)
  moreover have "\<not> isl (string_option mc (parsed_flags exe given) ''flagdir'' ''SNAPGS_LOBBY_FLAGDIR'')"
    using r(1) d by simp
  ultimately show ?thesis by (cases "string_option mc (parsed_flags exe given) ''flagdir'' ''SNAPGS_LOBBY_FLAGDIR''") auto
qed

theorem options_are_well_typed_witness:
  "\<exists>opts flagdir. read_options sample_machine (parsed_flags ''game'' [(''maxfails'', FInt 0), (''session'', FString ''s'')]) [] = (Inr opts, [])
    \<and> string_option sample_machine (parsed_flags ''game'' [(''maxfails'', FInt 0), (''session'', FString ''s'')]) ''flagdir'' ''SNAPGS_LOBBY_FLAGDIR'' = Inr flagdir"
  by (rule options_are_well_typed) code_simp

section \<open>From a demand to the exit code\<close>

lemma ExitCode_zero: "ExitCode err = 0 \<longleftrightarrow> err = None \<or> err = Some ErrLobbyDone"
  by (auto simp: ExitCode_def split: option.splits goerror.splits)

text \<open>The codes that have a meaning of their own have only one.\<close>

lemma ExitCode_distinct: "ExitCode a = ExitCode b \<Longrightarrow> ExitCode a \<notin> {0, 1} \<Longrightarrow> a = b"
  by (cases a; cases b) (auto simp: ExitCode_def split: goerror.splits)

lemma told_settled: "told_to_stop (Some r) \<Longrightarrow> settled (Some r) = 2"
  by (auto simp: told_to_stop_def)

lemma only_SIGTERM: "\<not> hardctx sigs \<and> softctx sigs \<longleftrightarrow> set sigs = {SIGTERM}"
proof -
  have "hardctx sigs \<longleftrightarrow> (\<exists>s \<in> set sigs. s \<noteq> SIGTERM)"
  proof -
    have "s \<in> set [SIGQUIT, SIGINT, SIGHUP] \<longleftrightarrow> s \<noteq> SIGTERM" for s by (cases s) simp_all
    then show ?thesis by (simp only: hardctx_def notified_def list_ex_iff simp_thms)
  qed
  moreover have "softctx sigs \<longleftrightarrow> hardctx sigs \<or> SIGTERM \<in> set sigs"
    by (auto simp: softctx_def notified_def list_ex_iff)
  ultimately show ?thesis by auto
qed

lemma terminated: "mainc sigs (Some r) = (if set sigs = {SIGTERM} then None else Some r)"
  using only_SIGTERM [of sigs] by (auto simp: mainc_def)

text \<open>C3. A demand to stop, go down or restart goes through: once a lobby has taken it as its reason while
  the game runs, then whatever the goroutines still do and however the game exits, the run returns it,
  the loop does not start another run, whatever its count, and the process exits with the code of
  the demand, or without failure if it has been told to terminate and has got no other signal.\<close>

theorem demand_ends_the_service:
  assumes "lsteps lb (runc_start lb hs start (fresh_lobby opts d clk)) s" and "s_phase s = Waiting"
    and "l_reason (s_lobby s) = Some r" and "told_to_stop (Some r)"
    and "lsteps lb s t" and "s_phase t = Stopped"
  shows "lobby_Run lb hs start clk None opts d (Some (s_lobby t)) (Some r)
    \<and> run_loop (\<lparr>rd_ctx = None, rd_maxfails = m, rd_result = s_result t, rd_elapsed = e\<rparr> # rs) runs fails = Ended (runs + 1) (Some r)
    \<and> snd (main up text sigs (Some r)) =
        (if set sigs = {SIGTERM} then 0 else if r = ErrLobbyDowned then 4 else if r = ErrLobbyStopped then 5 else 6)"
proof -
  have ok: "sys_ok s" using sys_steps [OF assms(1) start_ok [OF fresh_ok]] .
  have "s_result t = Some r"
    using result_of_settled [OF assms(5) ok assms(2)] assms(3,6) told_settled [OF assms(4)] by simp
  moreover have "lobby_Run lb hs start clk None opts d (Some (s_lobby t)) (s_result t)"
    using Completed [OF lsteps_trans [OF assms(1,5)] assms(6)] .
  moreover have "judge rd f = Return (Some r)" if "rd_result rd = Some r" for rd f
    using assms(4) that by (auto simp: judge_def clean_exit_def told_to_stop_def)
  moreover have "snd (main up text sigs (Some r)) =
      (if set sigs = {SIGTERM} then 0 else if r = ErrLobbyDowned then 4 else if r = ErrLobbyStopped then 5 else 6)"
    using assms(4) by (auto simp: main_def terminated ExitCode_def told_to_stop_def)
  ultimately show ?thesis by simp
qed

text \<open>A lobby with a spec directory, which is told to go down.\<close>

definition spec_sys :: sys where
  "spec_sys = runc_start sample_lib good_host (Inr 42)
     (fresh_lobby (sample_options\<lparr>SpecDir := ''/spec''\<rparr>) sample_disk (\<lambda>n. int n * Second))"

lemma spec_sys_shape: "s_phase spec_sys = Waiting \<and> h_watch (s_held spec_sys)
  \<and> l_proc (s_lobby spec_sys) = Running 42 \<and> l_reason (s_lobby spec_sys) = None \<and> s_watch spec_sys \<noteq> None"
proof -
  define l where "l = fresh_lobby (sample_options\<lparr>SpecDir := ''/spec''\<rparr>) sample_disk (\<lambda>n. int n * Second)"
  have o: "l_opts l = sample_options\<lparr>SpecDir := ''/spec''\<rparr>" "Debug sample_options = False" "PidFile sample_options = ''''"
    "watch_enabled (sample_options\<lparr>SpecDir := ''/spec''\<rparr>)"
    by (simp_all add: l_def fresh_lobby_def sample_options_def default_options_def watch_enabled_def)
  let ?l = "l\<lparr>l_spec := zero_spec\<rparr>" and ?h = "all_ends\<lparr>h_watch := True\<rparr>"
  have "hs_lookpath good_host = Inr" by (simp add: good_host_def sample_host_def)
  moreover have "alloc_pidfile good_host l = (None, l)" by (simp add: alloc_pidfile_def o)
  moreover have "alloc_pipes good_host nothing_held = (None, all_ends)"
    by (simp add: alloc_pipes_def good_host_def sample_host_def Let_def)
  moreover have "alloc_spec good_host all_ends l = (None, ?h, ?l)" by (simp add: alloc_spec_def o good_host_def sample_host_def)
  moreover have "alloc_log ?h ?l = (None, ?h, ?l)" by (simp add: alloc_log_def o)
  ultimately obtain l' where a: "alloc good_host l = (None, ?h, l')" by (simp add: alloc_def Let_def)
  obtain d where d: "snd (remstats sample_lib [] l') = l'\<lparr>l_disk := d\<rparr>" using remstats_shape by blast
  have "l_reason l' = None" "l_opts l' = sample_options\<lparr>SpecDir := ''/spec''\<rparr>"
    using alloc_succeeded [OF a] o(1) by simp_all
  then show ?thesis using a o(4) by (simp add: spec_sys_def runc_start_def runc_begin_def Let_def d l_def)
qed

lemma forced_tick:
  "ForceDownAfter (Some (l_spec l)) (l_t1 l) \<Longrightarrow>
    \<exists>lastup'. watcher_tick lb now lastup l = (True, lastup', cancel lb ErrLobbyDowned (l\<lparr>l_reads := Suc (l_reads l)\<rparr>))"
  by (simp add: watcher_tick_def time_Since_def time_now_def Let_def)

theorem demand_ends_the_service_witness:
  "\<exists>t :: sys. lobby_Run sample_lib good_host (Inr 42) (\<lambda>n. int n * Second) None (sample_options\<lparr>SpecDir := ''/spec''\<rparr>) sample_disk
        (Some (s_lobby t)) (Some ErrLobbyDowned)
    \<and> run_loop [\<lparr>rd_ctx = None, rd_maxfails = 3, rd_result = s_result t, rd_elapsed = 0\<rparr>, bad_round] 0 0 = Ended 1 (Some ErrLobbyDowned)
    \<and> snd (main ''0.000000000001s'' (\<lambda>e. ''downed'') [] (Some ErrLobbyDowned)) = 4
    \<and> snd (main ''0.000000000001s'' (\<lambda>e. ''downed'') [SIGTERM] (Some ErrLobbyDowned)) = 0"
proof -
  let ?sp = "zero_spec\<lparr>ForceDown := l_t1 (s_lobby spec_sys) + 1\<rparr>"
  let ?s1 = "spec_sys\<lparr>s_lobby := (s_lobby spec_sys)\<lparr>l_spec := ?sp\<rparr>\<rparr>"
  have 1: "lstep sample_lib spec_sys ?s1" by (rule SpecUpdate) (use spec_sys_shape in simp_all)
  obtain lastup where w: "s_watch ?s1 = Some lastup" using spec_sys_shape by auto
  let ?l = "(s_lobby ?s1)\<lparr>l_reads := Suc (l_reads (s_lobby ?s1))\<rparr>"
  have "ForceDownAfter (Some (l_spec (s_lobby ?s1))) (l_t1 (s_lobby ?s1))" by (simp add: ForceDownAfter_def After_def)
  then obtain lastup' where tick: "watcher_tick sample_lib 0 lastup (s_lobby ?s1) = (True, lastup', cancel sample_lib ErrLobbyDowned ?l)"
    using forced_tick by blast
  let ?s2 = "?s1\<lparr>s_lobby := cancel sample_lib ErrLobbyDone (cancel sample_lib ErrLobbyDowned ?l), s_watch := None\<rparr>"
  have 2: "lstep sample_lib ?s1 ?s2" by (rule TickStop [OF w tick])
  have s2: "lsteps sample_lib spec_sys ?s2" using lsteps_trans [OF lsteps_one [OF 1] lsteps_one [OF 2]] .
  have r2: "s_phase ?s2 = Waiting" "l_reason (s_lobby ?s2) = Some ErrLobbyDowned"
    using spec_sys_shape by (simp_all add: Cancel_reason)
  have ok2: "sys_ok ?s2" using sys_steps [OF s2] start_ok [OF fresh_ok] unfolding spec_sys_def by blast
  then obtain pid where "l_proc (s_lobby ?s2) = Running pid" using r2(1) by (auto simp: sys_ok_def)
  from Exit [OF r2(1) this, of sample_lib None] have 3: "lstep sample_lib ?s2 (game_exit sample_lib pid None ?s2)" .
  have "s_phase (game_exit sample_lib pid None ?s2) = Draining" by (simp add: game_exit_def drain_def case_prod_unfold)
  then obtain t where t: "lsteps sample_lib (game_exit sample_lib pid None ?s2) t" "s_phase t = Stopped"
    using drain_all [OF sys_step [OF 3 ok2]] by blast
  have told: "told_to_stop (Some ErrLobbyDowned)" by (simp add: told_to_stop_def)
  from demand_ends_the_service [OF s2 [unfolded spec_sys_def] r2 [unfolded spec_sys_def] told
      lsteps_trans [OF lsteps_one [OF 3] t(1), unfolded spec_sys_def] t(2), of 3 0 "[bad_round]" 0 0
      "''0.000000000001s''" "\<lambda>e. ''downed''"]
  have all: "lobby_Run sample_lib good_host (Inr 42) (\<lambda>n. int n * Second) None (sample_options\<lparr>SpecDir := ''/spec''\<rparr>) sample_disk
        (Some (s_lobby t)) (Some ErrLobbyDowned)
    \<and> run_loop [\<lparr>rd_ctx = None, rd_maxfails = 3, rd_result = s_result t, rd_elapsed = 0\<rparr>, bad_round] 0 0 = Ended 1 (Some ErrLobbyDowned)
    \<and> snd (main ''0.000000000001s'' (\<lambda>e. ''downed'') sigs (Some ErrLobbyDowned)) = (if set sigs = {SIGTERM} then 0 else 4)" for sigs
    by (simp del: run_loop.simps)
  show ?thesis by (rule exI [of _ t]) (use all [of "[]"] all [of "[SIGTERM]"] in \<open>simp del: run_loop.simps\<close>)
qed

end
