(* ===== verification/WatchScan.thy ===== *)
theory WatchScan
  imports WatchLoop GoPath
begin

text \<open>
  The start of \<open>Watch\<close> in \<open>internal/watch/watch.go\<close>: its checks, and the scan that follows the
  directory and every symbolic link in it, collects the regular files as the first events and
  fills the map \<open>watches\<close> from a directory as the kernel names it to the name it is reported under.

  \<open>node\<close> is what a path is when it is scanned, with the entries of a directory in the order of
  their names, as \<open>os.ReadDir\<close> returns them, or the error of reading it. \<open>swatch\<close> is the rest of
  the world: the absolute path, the watcher of the third-party package and \<open>EvalSymlinks\<close>. The
  loop over \<open>paths\<close> may add to it, so it is a partial function until it is proved to end.
\<close>

datatype node = Regular | Directory "(bytes \<times> node) list" | Unreadable goerror | Symlink | Other

record swatch =
  sw_abs :: "bytes \<Rightarrow> goerror + bytes"
  sw_new :: "goerror option"
  sw_node :: "bytes \<Rightarrow> goerror + node"
  sw_add :: "bytes \<Rightarrow> goerror option"
  sw_eval :: "bytes \<Rightarrow> goerror + bytes"

record scan =
  sc_watches :: "(bytes \<times> bytes) list"
  sc_events :: "event list"
  sc_paths :: "bytes list"
  sc_added :: "bytes list"

definition ends_in_slash :: "bytes \<Rightarrow> bool" where
  "ends_in_slash p \<longleftrightarrow> p \<noteq> '''' \<and> last p = slash"

definition err_duplicated :: "bytes \<Rightarrow> bytes \<Rightarrow> bytes \<Rightarrow> goerror" where
  "err_duplicated a b c = ErrOther (''watch duplicated: '' @ a @ '' -> '' @ b @ '' <- '' @ c)"

text \<open>\<open>watches[k]\<close> of a Go map: the empty string if there is none.\<close>

definition watched :: "scan \<Rightarrow> bytes \<Rightarrow> bytes" where
  "watched s k = (case map_of (sc_watches s) k of None \<Rightarrow> '''' | Some v \<Rightarrow> v)"

definition set_watch :: "bytes \<Rightarrow> bytes \<Rightarrow> scan \<Rightarrow> scan" where
  "set_watch k v s = s\<lparr>sc_watches := AList.update k v (sc_watches s)\<rparr>"

section \<open>One entry\<close>

definition add_dir :: "swatch \<Rightarrow> bytes \<Rightarrow> bytes \<Rightarrow> bytes \<Rightarrow> scan \<Rightarrow> goerror option \<times> scan" where
  "add_dir sw path in_name out s =
     (let s = set_watch in_name out s in
      case sw_add sw path of
        Some e \<Rightarrow> (Some e, s)
      | None \<Rightarrow> (None, s\<lparr>sc_added := sc_added s @ [path]\<rparr>))"

definition follow_link :: "swatch \<Rightarrow> bytes \<Rightarrow> bytes \<Rightarrow> scan \<Rightarrow> goerror option \<times> scan" where
  "follow_link sw path out s =
     (case sw_eval sw path of
        Inl e \<Rightarrow> (Some e, s)
      | Inr path \<Rightarrow>
          if path = '''' \<or> ends_in_slash path then (None, s)
          else let in_name = path @ [slash] in
            if watched s in_name \<noteq> '''' then (Some (err_duplicated (watched s in_name) in_name out), s)
            else (None, set_watch in_name out (s\<lparr>sc_paths := sc_paths s @ [path]\<rparr>)))"

text \<open>The function given to \<open>WalkDir\<close>, on an entry without an error. \<open>walked\<close> is \<open>paths[i]\<close>.\<close>

definition visit :: "swatch \<Rightarrow> op \<Rightarrow> bytes \<Rightarrow> bytes \<Rightarrow> bytes \<Rightarrow> node \<Rightarrow> scan \<Rightarrow> goerror option \<times> scan" where
  "visit sw create root walked path n s =
     (if path = '''' \<or> ends_in_slash path then (None, s)
      else
        let (head, tail) = path_split path in
        if head = '''' \<or> tail = '''' then (None, s)
        else
          let out = (case map_of (sc_watches s) head of None \<Rightarrow> path | Some alias \<Rightarrow> alias @ tail) in
          if n = Regular then
            (if path = walked then (None, s)
             else (None, s\<lparr>sc_events := sc_events s @ [\<lparr>ev_name = TrimPrefix out root, ev_op = create\<rparr>]\<rparr>))
          else
            let in_name = path @ [slash];
                out = out @ [slash];
                out = (if watched s out \<noteq> '''' then watched s out else out)
            in case n of
                 Symlink \<Rightarrow> follow_link sw path out s
               | Other \<Rightarrow> (None, s)
               | _ \<Rightarrow> add_dir sw path in_name out s)"

section \<open>\<open>WalkDir\<close>\<close>

text \<open>The first error ends the walk; that of reading a directory is handed to the function, which
  returns it.\<close>

fun walk :: "swatch \<Rightarrow> op \<Rightarrow> bytes \<Rightarrow> bytes \<Rightarrow> bytes \<Rightarrow> node \<Rightarrow> scan \<Rightarrow> goerror option \<times> scan"
  and walk_entries :: "swatch \<Rightarrow> op \<Rightarrow> bytes \<Rightarrow> bytes \<Rightarrow> bytes \<Rightarrow> (bytes \<times> node) list \<Rightarrow> scan \<Rightarrow> goerror option \<times> scan" where
  "walk sw create root walked path n s =
     (case visit sw create root walked path n s of
        (Some e, s) \<Rightarrow> (Some e, s)
      | (None, s) \<Rightarrow>
          (case n of
             Directory es \<Rightarrow> walk_entries sw create root walked path es s
           | Unreadable e \<Rightarrow> (Some e, s)
           | _ \<Rightarrow> (None, s)))"
| "walk_entries sw create root walked path [] s = (None, s)"
| "walk_entries sw create root walked path ((name, n) # es) s =
     (case walk sw create root walked (PJoin [path, name]) n s of
        (Some e, s) \<Rightarrow> (Some e, s)
      | (None, s) \<Rightarrow> walk_entries sw create root walked path es s)"

text \<open>Lines 95 to 143: the paths are walked one after the other, and a walk may add more.\<close>

partial_function (option) scan_paths :: "swatch \<Rightarrow> op \<Rightarrow> bytes \<Rightarrow> nat \<Rightarrow> scan \<Rightarrow> (goerror option \<times> scan) option" where
  "scan_paths sw create root i s =
     (if length (sc_paths s) \<le> i then Some (None, s)
      else case sw_node sw (sc_paths s ! i) of
        Inl e \<Rightarrow> Some (Some e, s)
      | Inr n \<Rightarrow>
          (case walk sw create root (sc_paths s ! i) (sc_paths s ! i) n s of
             (Some e, s) \<Rightarrow> Some (Some e, s)
           | (None, s) \<Rightarrow> scan_paths sw create root (Suc i) s))"

section \<open>Starting a watch\<close>

definition first_scan :: "bytes \<Rightarrow> scan" where
  "first_scan path = \<lparr>sc_watches = [], sc_events = [], sc_paths = [path], sc_added = []\<rparr>"

text \<open>The checks before the scan: an error, or the absolute path.\<close>

definition watch_check :: "swatch \<Rightarrow> goerror option \<Rightarrow> bytes \<Rightarrow> duration \<Rightarrow> nat \<Rightarrow> goerror + bytes" where
  "watch_check sw ctx path tick filters =
     (if path = '''' then Inl ErrWatchPathUnconfigured
      else if tick \<le> 0 then Inl ErrWatchTickUnconfigured
      else if filters = 0 then Inl ErrWatchFiltersUnconfigured
      else case ctx of Some e \<Rightarrow> Inl e
      | None \<Rightarrow>
          (case sw_abs sw path of Inl e \<Rightarrow> Inl e
           | Inr path \<Rightarrow>
               if path = '''' then Inl ErrWatchPathUnconfigured
               else if ends_in_slash path then Inl ErrWatchUnconfigured
               else case sw_new sw of Some e \<Rightarrow> Inl e | None \<Rightarrow> Inr path))"

text \<open>The whole of \<open>Watch\<close> up to its goroutine: the error or what was scanned, and whether the watcher
  is left open. It is \<open>None\<close> if the scan does not end.\<close>

definition watch_begin :: "swatch \<Rightarrow> op \<Rightarrow> goerror option \<Rightarrow> bytes \<Rightarrow> duration \<Rightarrow> nat \<Rightarrow> ((goerror + bytes \<times> scan) \<times> bool) option" where
  "watch_begin sw create ctx path tick filters =
     (case watch_check sw ctx path tick filters of
        Inl e \<Rightarrow> Some (Inl e, False)
      | Inr path \<Rightarrow>
          (case scan_paths sw create (path @ [slash]) 0 (first_scan path) of
             None \<Rightarrow> None
           | Some (Some e, s) \<Rightarrow> Some (Inl e, False)
           | Some (None, s) \<Rightarrow>
               if sc_added s = [] then Some (Inl ErrWatchUnconfigured, True)
               else Some (Inr (path @ [slash], s), True)))"

text \<open>The first flush, which hands the files found to the filters before the loop begins.\<close>

definition watch_first :: "('e, 's) filt list \<Rightarrow> 'e \<Rightarrow> scan \<Rightarrow> 's \<Rightarrow> 's watch" where
  "watch_first fs env s target = wrap fs env None True \<lparr>w_events = sc_events s, w_ticking = True, w_target = target\<rparr>"

section \<open>The scan ends\<close>

text \<open>Every path added to the list is one that a link leads to, its directory is in the map by then, and
  none is added twice. A file system has finitely many places a link can lead to, here \<open>ts\<close>.\<close>

definition scan_ok :: "bytes set \<Rightarrow> scan \<Rightarrow> bool" where
  "scan_ok ts s \<longleftrightarrow> sc_paths s \<noteq> [] \<and> distinct (tl (sc_paths s)) \<and> set (tl (sc_paths s)) \<subseteq> ts
     \<and> (\<forall>q \<in> set (tl (sc_paths s)). watched s (q @ [slash]) \<noteq> '''')"

definition links_to :: "swatch \<Rightarrow> bytes set \<Rightarrow> bool" where
  "links_to sw ts \<longleftrightarrow> (\<forall>p q. sw_eval sw p = Inr q \<longrightarrow> q \<in> ts)"

lemma watched_set [simp]: "watched (set_watch k v s) k' = (if k = k' then v else watched s k')"
  by (auto simp: watched_def set_watch_def)

lemma set_watch_simps [simp]:
  "sc_paths (set_watch k v s) = sc_paths s" "sc_events (set_watch k v s) = sc_events s"
  "sc_added (set_watch k v s) = sc_added s"
  by (simp_all add: set_watch_def)

lemma watched_update [simp]:
  "watched (s\<lparr>sc_paths := ps\<rparr>) k = watched s k" "watched (s\<lparr>sc_events := es\<rparr>) k = watched s k"
  "watched (s\<lparr>sc_added := ds\<rparr>) k = watched s k"
  by (simp_all add: watched_def)

lemma add_dir_ok: "scan_ok ts s \<Longrightarrow> out \<noteq> '''' \<Longrightarrow> scan_ok ts (snd (add_dir sw path k out s))"
  by (auto simp: add_dir_def scan_ok_def Let_def split: option.split)

lemma follow_link_ok:
  assumes "scan_ok ts s" and "out \<noteq> ''''" and "links_to sw ts"
  shows "scan_ok ts (snd (follow_link sw path out s))"
proof (cases "sw_eval sw path")
  case (Inl e)
  with assms(1) show ?thesis by (simp add: follow_link_def)
next
  case (Inr q)
  then have "q \<in> ts" using assms(3) by (simp add: links_to_def)
  moreover have "q \<notin> set (tl (sc_paths s))" if "watched s (q @ [slash]) = ''''"
    using that assms(1) by (auto simp: scan_ok_def)
  ultimately show ?thesis using assms(1,2) Inr by (cases "sc_paths s") (auto simp: follow_link_def scan_ok_def Let_def)
qed

lemma visit_ok:
  assumes "scan_ok ts s" and "links_to sw ts"
  shows "scan_ok ts (snd (visit sw create root walked path n s))"
proof -
  have "scan_ok ts (s\<lparr>sc_events := es\<rparr>)" for es using assms(1) by (simp add: scan_ok_def)
  moreover have "(if watched s (x @ [slash]) \<noteq> '''' then watched s (x @ [slash]) else x @ [slash]) \<noteq> ''''" for x by simp
  ultimately show ?thesis
    using assms follow_link_ok [OF assms(1) _ assms(2)] add_dir_ok [OF assms(1)]
    unfolding visit_def Let_def case_prod_unfold by (cases n) simp_all
qed

lemma walk_ok:
  assumes "links_to sw ts"
  shows "scan_ok ts s \<Longrightarrow> scan_ok ts (snd (walk sw create root walked path n s))"
    and "scan_ok ts s \<Longrightarrow> scan_ok ts (snd (walk_entries sw create root walked path es s))"
  using assms
proof (induction sw create root walked path n s and sw create root walked path es s rule: walk_walk_entries.induct)
  case (1 sw create root walked path n s)
  note v = visit_ok [OF 1(2,3), of create root walked path n]
  show ?case
  proof (cases "fst (visit sw create root walked path n s)")
    case None
    then obtain s' where s': "visit sw create root walked path n s = (None, s')" by (cases "visit sw create root walked path n s") auto
    show ?thesis using 1(1) [OF s' [symmetric] refl] v s' 1(3) by (cases n) (auto simp: s')
  next
    case (Some e)
    with v show ?thesis by (cases "visit sw create root walked path n s") simp
  qed
next
  case (3 sw create root walked path name n es s)
  obtain r s' where s': "walk sw create root walked (PJoin [path, name]) n s = (r, s')" by fastforce
  with 3(1) [OF 3(3,4)] have "scan_ok ts s'" by simp
  with 3(2) [OF s' [symmetric]] 3(4) s' show ?case by (cases r) (auto simp: s' simp del: walk.simps)
qed simp_all

lemma scan_ok_length: "scan_ok ts s \<Longrightarrow> finite ts \<Longrightarrow> length (sc_paths s) \<le> Suc (card ts)"
proof -
  assume a: "scan_ok ts s" "finite ts"
  then have "length (tl (sc_paths s)) = card (set (tl (sc_paths s)))" by (simp add: scan_ok_def distinct_card)
  also have "\<dots> \<le> card ts" using a by (intro card_mono) (simp_all add: scan_ok_def)
  finally show ?thesis by simp
qed

lemma scan_paths_end:
  assumes "finite ts" and "links_to sw ts"
  shows "scan_ok ts s \<Longrightarrow> \<exists>e s'. scan_paths sw create root i s = Some (e, s') \<and> scan_ok ts s'"
proof (induction "Suc (card ts) - i" arbitrary: i s rule: less_induct)
  case less
  show ?case
  proof (cases "length (sc_paths s) \<le> i")
    case True
    with less.prems show ?thesis by (subst scan_paths.simps) simp
  next
    case False
    then have i: "i < Suc (card ts)" using scan_ok_length [OF less.prems assms(1)] by simp
    show ?thesis
    proof (cases "sw_node sw (sc_paths s ! i)")
      case (Inl e)
      with less.prems show ?thesis by (subst scan_paths.simps) simp
    next
      case (Inr n)
      obtain r s' where w: "walk sw create root (sc_paths s ! i) (sc_paths s ! i) n s = (r, s')" by fastforce
      then have ok: "scan_ok ts s'"
        using walk_ok(1) [OF assms(2) less.prems, of create root "sc_paths s ! i" "sc_paths s ! i" n] by simp
      show ?thesis
      proof (cases r)
        case None
        have "\<exists>e s2. scan_paths sw create root (Suc i) s' = Some (e, s2) \<and> scan_ok ts s2"
          using i by (intro less.hyps ok) simp
        with None Inr w False show ?thesis by (subst scan_paths.simps) (simp del: walk.simps)
      next
        case (Some e)
        with Inr w ok False show ?thesis by (subst scan_paths.simps) (simp del: walk.simps)
      qed
    qed
  qed
qed


text \<open>Two links that lead to each other's directory.\<close>

definition loop_world :: swatch where
  "loop_world = \<lparr>sw_abs = Inr, sw_new = None,
     sw_node = (\<lambda>p. Inr (Directory [(''f'', Regular), (''l'', Symlink)])), sw_add = (\<lambda>p. None),
     sw_eval = (\<lambda>p. Inr (if p = ''/a/l'' then ''/b'' else if p = ''/b/l'' then ''/c'' else ''/b''))\<rparr>"


text \<open>A path that is no directory and leads to none is refused, with the watcher left open.\<close>

lemma refused_watch_stays_open:
  assumes "watch_check sw ctx path tick filters = Inr p" and "sw_node sw p = Inr Regular" and "p \<noteq> ''''" and "\<not> ends_in_slash p"
  shows "watch_begin sw create ctx path tick filters = Some (Inl ErrWatchUnconfigured, True)"
proof -
  have w: "walk sw create r p p Regular (first_scan p) = (None, first_scan p)" for r
    using assms(3,4) by (auto simp: visit_def case_prod_unfold Let_def)
  have "scan_paths sw create r 0 (first_scan p) = Some (None, first_scan p)" for r
    by (subst scan_paths.simps, subst scan_paths.simps) (use w in \<open>simp add: first_scan_def assms(2) del: walk.simps\<close>)
  then show ?thesis by (simp add: watch_begin_def assms(1) first_scan_def)
qed

section \<open>A directory without links\<close>

fun plain_entries :: "(bytes \<times> node) list \<Rightarrow> bool" where
  "plain_entries [] = True"
| "plain_entries ((n, Directory ds) # es) = (simple_name n \<and> plain_entries ds \<and> plain_entries es)"
| "plain_entries ((n, Unreadable e) # es) = False"
| "plain_entries ((n, Symlink) # es) = False"
| "plain_entries ((n, Regular) # es) = (simple_name n \<and> plain_entries es)"
| "plain_entries ((n, Other) # es) = (simple_name n \<and> plain_entries es)"

text \<open>The files below a directory, and the directories, each under its path from there.\<close>

fun files_in :: "bytes \<Rightarrow> (bytes \<times> node) list \<Rightarrow> bytes list" where
  "files_in pre [] = []"
| "files_in pre ((n, Regular) # es) = (pre @ n) # files_in pre es"
| "files_in pre ((n, Directory ds) # es) = files_in (pre @ n @ [slash]) ds @ files_in pre es"
| "files_in pre ((n, _) # es) = files_in pre es"

fun dirs_in :: "bytes \<Rightarrow> (bytes \<times> node) list \<Rightarrow> bytes list" where
  "dirs_in pre [] = []"
| "dirs_in pre ((n, Directory ds) # es) = (pre @ n @ [slash]) # dirs_in (pre @ n @ [slash]) ds @ dirs_in pre es"
| "dirs_in pre ((n, _) # es) = dirs_in pre es"

definition created :: "op \<Rightarrow> bytes \<Rightarrow> event" where
  "created create n = \<lparr>ev_name = n, ev_op = create\<rparr>"

definition same_names :: "scan \<Rightarrow> bool" where
  "same_names s \<longleftrightarrow> (\<forall>k v. map_of (sc_watches s) k = Some v \<longrightarrow> v = k)"

lemma path_split_join: "simple_name n \<Longrightarrow> path_split (dir @ slash # n) = (dir @ [slash], n)"
proof -
  assume "simple_name n"
  then have n: "slash \<notin> set (rev n)" by (simp add: simple_name_def)
  have "takeWhile (\<lambda>c. c \<noteq> slash) (xs @ slash # ys) = xs \<and> dropWhile (\<lambda>c. c \<noteq> slash) (xs @ slash # ys) = slash # ys"
    if "slash \<notin> set xs" for xs ys using that by (induction xs) auto
  from this [OF n, of "rev dir"] show ?thesis by (simp add: path_split_def slash_def)
qed

lemma no_end_slash: "simple_name n \<Longrightarrow> \<not> ends_in_slash (dir @ slash # n)"
  by (metis append_Cons append_Nil append_assoc ends_in_slash_def last_append last_in_set simple_name_def)

text \<open>What the walk does to the scan: the files are recorded, and the directories watched as themselves.\<close>

definition walked_dirs :: "op \<Rightarrow> bytes \<Rightarrow> bytes list \<Rightarrow> bytes list \<Rightarrow> scan \<Rightarrow> scan \<Rightarrow> bool" where
  "walked_dirs create root files dirs s s' \<longleftrightarrow> same_names s'
     \<and> sc_events s' = sc_events s @ map (created create) files \<and> sc_paths s' = sc_paths s
     \<and> fst ` set (sc_watches s') = fst ` set (sc_watches s) \<union> set (map ((@) root) dirs)
     \<and> sc_added s' = sc_added s @ map (\<lambda>d. butlast (root @ d)) dirs"

lemma walked_dirs_trans:
  "walked_dirs create root fs ds s s' \<Longrightarrow> walked_dirs create root fs' ds' s' s'' \<Longrightarrow>
    walked_dirs create root (fs @ fs') (ds @ ds') s s''"
  by (auto simp: walked_dirs_def)

lemma walked_none: "same_names s \<Longrightarrow> walked_dirs create root [] [] s s"
  by (simp add: walked_dirs_def)

lemma add_same_dir:
  assumes "same_names s" and "sw_add sw p = None" and "p @ [slash] = root @ d"
  shows "\<exists>s'. add_dir sw p (p @ [slash]) (p @ [slash]) s = (None, s') \<and> walked_dirs create root [] [d] s s'"
proof -
  have "butlast (root @ d) = p" unfolding assms(3) [symmetric] by simp
  then show ?thesis using assms
    by (auto simp: add_dir_def Let_def walked_dirs_def same_names_def set_watch_def)
qed

lemma same_watched: "same_names s \<Longrightarrow> (if watched s k \<noteq> '''' then watched s k else k) = k"
  by (auto simp: same_names_def watched_def split: option.split)

lemma visit_plain:
  assumes "same_names s" and "simple_name n" and "dir \<noteq> ''''" and "dir @ [slash] = root @ pre" and "root \<noteq> ''''"
    and "dir @ slash # n \<noteq> walked" and "\<And>q. sw_add sw q = None"
  shows "\<exists>s'. visit sw create root walked (dir @ slash # n) Regular s = (None, s') \<and> walked_dirs create root [pre @ n] [] s s'"
    and "\<exists>s'. visit sw create root walked (dir @ slash # n) (Directory es) s = (None, s') \<and> walked_dirs create root [] [pre @ n @ [slash]] s s'"
    and "visit sw create root walked (dir @ slash # n) Other s = (None, s)"
proof -
  let ?p = "dir @ slash # n"
  have p: "?p = root @ pre @ n" using assms(4) by (metis append.assoc append_Cons append_Nil)
  have n: "n \<noteq> ''''" using assms(2) by (simp add: simple_name_def)
  have out: "(case map_of (sc_watches s) (dir @ [slash]) of None \<Rightarrow> ?p | Some alias \<Rightarrow> alias @ n) = ?p"
    using assms(1) by (auto simp: same_names_def split: option.split)
  note v = visit_def path_split_join [OF assms(2)] no_end_slash [OF assms(2)] out Let_def
  have "TrimPrefix ?p root = pre @ n" unfolding p by simp
  then show "\<exists>s'. visit sw create root walked ?p Regular s = (None, s') \<and> walked_dirs create root [pre @ n] [] s s'"
    using assms(1,6) n by (simp add: v walked_dirs_def same_names_def created_def)
  have "?p @ [slash] = root @ pre @ n @ [slash]" unfolding p by simp
  from add_same_dir [OF assms(1,7) this, of create]
  show "\<exists>s'. visit sw create root walked ?p (Directory es) s = (None, s') \<and> walked_dirs create root [] [pre @ n @ [slash]] s s'"
    using n same_watched [OF assms(1)] by (simp add: v)
  show "visit sw create root walked ?p Other s = (None, s)" using n by (simp add: v)
qed

lemma root_path_longer: "dir @ [slash] = (walked @ [slash]) @ pre \<Longrightarrow> n \<noteq> '''' \<Longrightarrow> dir @ slash # n \<noteq> walked"
proof
  assume a: "dir @ [slash] = (walked @ [slash]) @ pre" "n \<noteq> ''''" "dir @ slash # n = walked"
  then have "length (dir @ [slash]) = Suc (length walked) + length pre" by (metis length_append length_append_singleton)
  moreover have "length walked = Suc (length dir) + length n" using a(3) by auto
  ultimately show False using a(2) by simp
qed

lemma walk_entries_plain:
  assumes "\<And>q. sw_add sw q = None"
  shows "plain_entries es \<Longrightarrow> same_names s \<Longrightarrow> clean_abs dir \<Longrightarrow> dir @ [slash] = (walked @ [slash]) @ pre \<Longrightarrow>
    \<exists>s'. walk_entries sw create (walked @ [slash]) walked dir es s = (None, s')
      \<and> walked_dirs create (walked @ [slash]) (files_in pre es) (dirs_in pre es) s s'"
proof (induction es arbitrary: s dir pre rule: plain_entries.induct)
  case 1
  then show ?case by (simp add: walked_none)
next
  case (2 n ds es)
  let ?root = "walked @ [slash]" and ?p = "dir @ slash # n"
  have n: "simple_name n" and pl: "plain_entries ds" "plain_entries es" using 2(3) by simp_all
  have "dir \<noteq> ''''" using 2(5) by (auto simp: clean_abs_def rooted_def)
  have "n \<noteq> ''''" using n by (simp add: simple_name_def)
  note nw = root_path_longer [OF 2(6) this]
  obtain s1 where s1: "visit sw create ?root walked ?p (Directory ds) s = (None, s1)"
    "walked_dirs create ?root [] [pre @ n @ [slash]] s s1"
    using visit_plain(2) [OF 2(4) n \<open>dir \<noteq> ''''\<close> 2(6) _ nw assms, of create ds] by auto
  have "?p @ [slash] = ?root @ pre @ n @ [slash]" using 2(6) by (metis append.assoc append_Cons append_Nil)
  from 2(1) [OF pl(1) _ clean_abs_PJoin [OF 2(5) n], of s1 "pre @ n @ [slash]"] this s1(2)
  obtain s2 where s2: "walk_entries sw create ?root walked ?p ds s1 = (None, s2)"
    "walked_dirs create ?root (files_in (pre @ n @ [slash]) ds) (dirs_in (pre @ n @ [slash]) ds) s1 s2"
    by (auto simp: walked_dirs_def)
  obtain s3 where s3: "walk_entries sw create ?root walked dir es s2 = (None, s3)"
    "walked_dirs create ?root (files_in pre es) (dirs_in pre es) s2 s3"
    using 2(2) [OF pl(2) _ 2(5,6), of s2] s2(2) by (auto simp: walked_dirs_def)
  show ?case
    using walked_dirs_trans [OF walked_dirs_trans [OF s1(2) s2(2)] s3(2)]
    by (simp add: PJoin_clean_abs [OF 2(5) n] s1(1) s2(1) s3(1))
next
  case (5 n es)
  let ?root = "walked @ [slash]" and ?p = "dir @ slash # n"
  have n: "simple_name n" using 5(2) by simp
  have "dir \<noteq> ''''" using 5(4) by (auto simp: clean_abs_def rooted_def)
  have "n \<noteq> ''''" using n by (simp add: simple_name_def)
  note nw = root_path_longer [OF 5(5) this]
  obtain s1 where s1: "visit sw create ?root walked ?p Regular s = (None, s1)"
    "walked_dirs create ?root [pre @ n] [] s s1"
    using visit_plain(1) [OF 5(3) n \<open>dir \<noteq> ''''\<close> 5(5) _ nw assms, of create] by auto
  obtain s3 where s3: "walk_entries sw create ?root walked dir es s1 = (None, s3)"
    "walked_dirs create ?root (files_in pre es) (dirs_in pre es) s1 s3"
    using 5(1) [OF _ _ 5(4,5), of s1] 5(2) s1(2) by (auto simp: walked_dirs_def)
  show ?case using walked_dirs_trans [OF s1(2) s3(2)] by (simp add: PJoin_clean_abs [OF 5(4) n] s1(1) s3(1))
next
  case (6 n es)
  let ?root = "walked @ [slash]" and ?p = "dir @ slash # n"
  have n: "simple_name n" using 6(2) by simp
  have "dir \<noteq> ''''" using 6(4) by (auto simp: clean_abs_def rooted_def)
  have "n \<noteq> ''''" using n by (simp add: simple_name_def)
  note nw = root_path_longer [OF 6(5) this]
  have "visit sw create ?root walked ?p Other s = (None, s)"
    using visit_plain(3) [OF 6(3) n \<open>dir \<noteq> ''''\<close> 6(5) _ nw assms, of create] by simp
  moreover obtain s3 where "walk_entries sw create ?root walked dir es s = (None, s3)"
    "walked_dirs create ?root (files_in pre es) (dirs_in pre es) s s3"
    using 6(1) [OF _ 6(3-5)] 6(2) by auto
  ultimately show ?case by (simp add: PJoin_clean_abs [OF 6(4) n])
qed simp_all

lemma files_parts:
  "plain_entries es \<Longrightarrow> f \<in> set (files_in pre es) \<Longrightarrow> pre = '''' \<or> ends_in_slash pre \<Longrightarrow>
    \<exists>d n. f = d @ n \<and> simple_name n \<and> (d = pre \<or> d \<in> set (dirs_in pre es)) \<and> (d = '''' \<or> ends_in_slash d)"
proof (induction es arbitrary: pre rule: plain_entries.induct)
  case (2 n ds es)
  have e: "ends_in_slash (pre @ n @ [slash])" by (simp add: ends_in_slash_def)
  from 2(4) consider "f \<in> set (files_in (pre @ n @ [slash]) ds)" | "f \<in> set (files_in pre es)" by auto
  then show ?case
  proof cases
    case 1
    from 2(1) [OF _ 1 disjI2 [OF e]] 2(3) show ?thesis by auto
  next
    case b: 2
    from 2(2) [OF _ b 2(5)] 2(3) show ?thesis by auto
  qed
next
  case (5 n es)
  then show ?case by (cases "f = pre @ n") auto
qed auto

lemma locate_same:
  assumes "same_names s" and "d = '''' \<or> ends_in_slash d" and "simple_name n" and "root @ d \<in> fst ` set (sc_watches s)"
    and "root = walked @ [slash]"
  shows "locate (sc_watches s) root \<lparr>ev_name = root @ d @ n, ev_op = e\<rparr> = Some \<lparr>ev_name = d @ n, ev_op = e\<rparr>"
proof -
  have "\<exists>dir. root @ d = dir @ [slash]"
  proof (cases "d = ''''")
    case False
    then have "butlast d @ [slash] = d" using assms(2) append_butlast_last_id [OF False] by (simp add: ends_in_slash_def)
    then have "root @ d = (root @ butlast d) @ [slash]" by simp
    then show ?thesis by blast
  qed (simp add: assms(5))
  then obtain dir where dir: "root @ d = dir @ [slash]" ..
  then have e: "root @ d @ n = dir @ slash # n" by (metis append.assoc append_Cons append_Nil)
  have sp: "path_split (root @ d @ n) = (root @ d, n)" unfolding e dir by (rule path_split_join [OF assms(3)])
  from assms(4) obtain v where "map_of (sc_watches s) (root @ d) = Some v" by (metis map_of_eq_None_iff not_None_eq)
  with assms(1) have m: "map_of (sc_watches s) (root @ d) = Some (root @ d)" by (auto simp: same_names_def)
  have "root @ d \<noteq> ''''" "n \<noteq> ''''" using assms(3,5) by (simp_all add: simple_name_def)
  moreover have "HasPrefix (root @ d) root" by simp
  moreover have "TrimPrefix ((root @ d) @ n) root = d @ n" by simp
  ultimately show ?thesis by (simp add: locate_def sp m del: append_assoc)
qed

text \<open>C25. On a directory without links the scan records exactly the files below it, each once and under
  its path from the directory, every directory below it is watched, and the loop gives a later event
  on any of these files the very name the scan gave it.\<close>

theorem plain_directory_is_scanned:
  assumes "watch_check sw ctx path tick filters = Inr p" and "clean_abs p" and "sw_node sw p = Inr (Directory es)"
    and "plain_entries es" and "\<And>q. sw_add sw q = None"
  shows "\<exists>s. watch_begin sw create ctx path tick filters = Some (Inr (p @ [slash], s), True)
    \<and> sc_events s = map (created create) (files_in '''' es)
    \<and> sc_added s = p # map (\<lambda>d. butlast (p @ slash # d)) (dirs_in '''' es)
    \<and> list_all (\<lambda>f. locate (sc_watches s) (p @ [slash]) \<lparr>ev_name = p @ slash # f, ev_op = e\<rparr>
         = Some \<lparr>ev_name = f, ev_op = e\<rparr>) (files_in '''' es)"
proof -
  let ?root = "p @ [slash]" and ?s0 = "first_scan p"
  have p: "p \<noteq> ''''" "\<not> ends_in_slash p" using assms(1) by (auto simp: watch_check_def split: if_splits option.splits sum.splits)
  have hd: "hd p = slash" using assms(2) p(1) by (cases p) (auto simp: clean_abs_def rooted_def)
  have h: "fst (path_split p) \<noteq> ''''" "snd (path_split p) \<noteq> ''''"
  proof -
    have sl: "slash \<in> set p" using hd p(1) by (metis hd_in_set)
    then show "fst (path_split p) \<noteq> ''''" by (auto simp: path_split_def slash_def dropWhile_eq_Nil_conv)
    show "snd (path_split p) \<noteq> ''''" using p by (cases p rule: rev_cases) (auto simp: path_split_def ends_in_slash_def slash_def)
  qed
  have s0: "same_names ?s0" "sc_watches ?s0 = []" "sc_paths ?s0 = [p]" "sc_events ?s0 = []" "sc_added ?s0 = []"
    by (simp_all add: first_scan_def same_names_def)
  have "?root = ?root @ ''''" by simp
  from add_same_dir [OF s0(1) assms(5) this, of create] obtain s1 where s1: "add_dir sw p ?root ?root ?s0 = (None, s1)"
    "walked_dirs create ?root [] [''''] ?s0 s1" by auto
  have v: "visit sw create ?root p p (Directory es) ?s0 = (None, s1)"
    using p h s1(1) by (simp add: visit_def case_prod_unfold Let_def s0(2) watched_def)
  obtain s2 where s2: "walk_entries sw create ?root p p es s1 = (None, s2)"
    "walked_dirs create ?root (files_in '''' es) (dirs_in '''' es) s1 s2"
    using walk_entries_plain [OF assms(5,4) _ assms(2), where s = s1 and walked = p and pre = "''''" and create = create] s1(2) by (auto simp: walked_dirs_def)
  have w: "walk sw create ?root p p (Directory es) ?s0 = (None, s2)" by (simp add: v s2(1))
  have t: "walked_dirs create ?root (files_in '''' es) ('''' # dirs_in '''' es) ?s0 s2"
    using walked_dirs_trans [OF s1(2) s2(2)] by simp
  then have ps: "sc_paths s2 = [p]" by (simp add: walked_dirs_def s0)
  have "scan_paths sw create ?root (Suc 0) s2 = Some (None, s2)" by (subst scan_paths.simps) (simp add: ps)
  then have sc: "scan_paths sw create ?root 0 ?s0 = Some (None, s2)"
    by (subst scan_paths.simps) (simp add: s0(3) assms(3) w del: walk.simps)
  have "sc_added s2 = p # map (\<lambda>d. butlast (p @ slash # d)) (dirs_in '''' es)"
    using t by (simp add: walked_dirs_def s0)
  moreover have "locate (sc_watches s2) ?root \<lparr>ev_name = p @ slash # f, ev_op = e\<rparr> = Some \<lparr>ev_name = f, ev_op = e\<rparr>"
    if f: "f \<in> set (files_in '''' es)" for f
  proof -
    obtain d n where d: "f = d @ n" "simple_name n" "d = '''' \<or> d \<in> set (dirs_in '''' es)" "d = '''' \<or> ends_in_slash d"
      using files_parts [OF assms(4) f] by auto
    from t have "same_names s2" "?root @ d \<in> fst ` set (sc_watches s2)" using d(3) by (auto simp: walked_dirs_def)
    from locate_same [OF this(1) d(4,2) this(2) refl] show ?thesis by (simp add: d(1))
  qed
  ultimately show ?thesis using t
    by (intro exI [of _ s2]) (simp add: watch_begin_def assms(1) sc walked_dirs_def s0 list_all_iff)
qed

definition plain_world :: swatch where
  "plain_world = \<lparr>sw_abs = (\<lambda>p. Inr (slash # p)), sw_new = None,
     sw_node = (\<lambda>p. Inr (Directory [(''flag'', Directory [(''up'', Regular)]), (''stop'', Regular)])),
     sw_add = (\<lambda>p. None), sw_eval = (\<lambda>p. Inl ErrLobbyBad)\<rparr>"

theorem plain_directory_is_scanned_witness:
  "\<exists>s. watch_begin plain_world 1 None ''spec'' Second 2 = Some (Inr (''/spec/'', s), True)
    \<and> sc_events s = [created 1 ''flag/up'', created 1 ''stop''] \<and> sc_added s = [''/spec'', ''/spec/flag'']
    \<and> locate (sc_watches s) ''/spec/'' \<lparr>ev_name = ''/spec/flag/up'', ev_op = 2\<rparr> = Some \<lparr>ev_name = ''flag/up'', ev_op = 2\<rparr>"
proof -
  let ?es = "[(''flag'', Directory [(''up'', Regular)]), (''stop'', Regular)]"
  have c: "watch_check plain_world None ''spec'' Second 2 = Inr ''/spec''"
    by (simp add: watch_check_def plain_world_def ends_in_slash_def slash_def)
  have a: "clean_abs ''/spec''" by code_simp
  have n: "sw_node plain_world ''/spec'' = Inr (Directory ?es)" "sw_add plain_world q = None" for q
    by (simp_all add: plain_world_def)
  have p: "plain_entries ?es" by (simp add: simple_name_def slash_def)
  have f: "files_in '''' ?es = [''flag/up'', ''stop'']" "dirs_in '''' ?es = [''flag/'']" by (simp_all add: slash_def)
  from plain_directory_is_scanned [OF c a n(1) p n(2), of 1 2] show ?thesis
    unfolding f by (simp add: slash_def) blast
qed

end
