(* ===== verification/LobbyLog.thy ===== *)
theory LobbyLog
  imports LobbyOutput Supervisor
begin

text \<open>
  What a lobby writes: \<open>errorf\<close>, \<open>debugf\<close>, \<open>infof\<close>, \<open>logvout\<close> and \<open>logverr\<close> of
  \<open>internal/lobby/lobby.go\<close>, as the writes to its standard output (1) and error (2). \<open>up\<close> is the
  time stamp of the line. With the scanner and the log files of \<open>Supervisor\<close> this gives what
  \<open>lobby.log\<close> says about the output of the game.
\<close>

definition debugf :: "bytes \<Rightarrow> lobby \<Rightarrow> bytes \<Rightarrow> (nat \<times> bytes) list" where
  "debugf up l msg = (if \<not> Debug (l_opts l) then [] else map (Pair 2) (Debugf up (''Lobby.'' @ msg)))"

definition errorf :: "bytes \<Rightarrow> lobby \<Rightarrow> bytes \<Rightarrow> fmt_arg list \<Rightarrow> (nat \<times> bytes) list" where
  "errorf up l msg a =
     (if Debug (l_opts l) then debugf up l msg else map (Pair 2) (Errorf up (''Lobby.'' @ msg) a))"

definition infof :: "bytes \<Rightarrow> bytes \<Rightarrow> (nat \<times> bytes) list" where
  "infof up msg = map (Pair 2) (Infof up (''Lobby.'' @ msg))"

definition logvout :: "bytes \<Rightarrow> bytes \<Rightarrow> (nat \<times> bytes) list" where
  "logvout up bs = map (Pair 1) (Logv up prefix_N1 [Some bs])"

definition logverr :: "bytes \<Rightarrow> bytes \<Rightarrow> (nat \<times> bytes) list" where
  "logverr up bs = map (Pair 2) (Logv up prefix_N2 [Some bs])"

text \<open>The writes for the lines a lobby has let through, the \<open>k\<close>-th with the time stamp \<open>ups k\<close>.\<close>

fun console :: "(nat \<Rightarrow> bytes) \<Rightarrow> nat \<Rightarrow> (nat \<times> bytes) list \<Rightarrow> (nat \<times> bytes) list" where
  "console ups k [] = []"
| "console ups k ((fd, bs) # out) =
     (if fd = 1 then logvout (ups k) bs else logverr (ups k) bs) @ console ups (Suc k) out"

section \<open>What is let through\<close>

lemma out_set_match [simp]: "l_out (set_match lb m l) = l_out l"
  by (simp add: set_match_def match_started_def Let_def split: option.split)

lemma out_filterjson [simp]: "l_out (snd (filterjson lb bs l)) = l_out l"
  by (simp add: filterjson_def split: option.split)

lemma out_set_arena [simp]: "l_out (set_arena lb a l) = l_out l"
  by (simp add: set_arena_def)

lemma out_note [simp]: "l_out (note_player lb i n l) = l_out l"
  by (simp add: note_player_def)

lemma out_unknown [simp]: "l_out (cancel_unknown lb i l) = l_out l"
  by (simp add: cancel_unknown_def)

lemma out_emptied [simp]: "l_out (lobby_emptied lb l) = l_out l"
  by (simp add: lobby_emptied_def Let_def split: prod.split option.split)

lemma out_registered [simp]: "l_out (registered lb sid l) = l_out l"
  by (simp add: registered_def Let_def case_prod_unfold split: option.split)

lemma out_unregistered [simp]: "l_out (unregistered lb sid l) = l_out l"
  by (simp add: unregistered_def Let_def case_prod_unfold)

lemma out_mark [simp]: "l_out (mark_changed l) = l_out l"
  by (simp add: mark_changed_def)

lemma out_filterbolt [simp]: "l_out (snd (filterbolt lb bs l)) = l_out l"
  by (simp add: filterbolt_def)

lemma out_act [simp]: "l_out (snd (act_on_line lb bs l)) = l_out l"
  by (simp add: act_on_line_def)

text \<open>A line of standard output as the lobby shows it, empty if it is dropped.\<close>

definition shown :: "bytes \<Rightarrow> bytes" where
  "shown line =
     (if ignored stdoutIgnorePrefixes [] (TrimSpace line) then ''''
      else if hd line = CHR ''{'' \<and> last line = CHR ''}'' then truncate_line line trunc
      else line)"

lemma act_shown: "fst (act_on_line lb line l) = (if hd line = CHR ''{'' \<and> last line = CHR ''}'' then truncate_line line trunc else line, None)"
  by (simp add: act_on_line_def filterjson_def filterbolt_def)

lemma scan_line_out: "l_out (scan_line lb 1 line l) = l_out l @ map (Pair 1) (filter (\<lambda>b. b \<noteq> []) [shown line])"
  using act_shown [of lb line l] out_act [of lb line l]
  by (cases "act_on_line lb line l") (auto simp: scan_line_def lfilter_def shown_def)

lemma scan_lines_out:
  "l_out (fold (scan_line lb 1) lines l) = l_out l @ map (Pair 1) (filter (\<lambda>b. b \<noteq> []) (map shown lines))"
  by (induction lines arbitrary: l) (simp_all add: scan_line_out [simplified])

section \<open>What the log says\<close>


abbreviation (input) "nl \<equiv> CHR 0x0A"

lemma Split_line: "sep \<notin> set w \<Longrightarrow> Split (w @ sep # s) sep = w # Split s sep"
  by (induction w) auto

lemma Split_lines: "list_all (\<lambda>w. nl \<notin> set w) ws \<Longrightarrow> Split (concat (map (\<lambda>w. w @ [nl]) ws)) nl = ws @ [[]]"
  by (induction ws) (simp_all add: Split_line)

lemma digits_plain: "(of_char c :: nat) < 48 \<Longrightarrow> c \<notin> set (dec_digits n)"
proof
  assume c: "(of_char c :: nat) < 48" "c \<in> set (dec_digits n)"
  then obtain d where d: "d < 10" "c = digit_char d" using dec_digits_chars by blast
  then have "(of_char c :: nat) = of_char (char_of (48 + d) :: char)" by (simp add: digit_char_def)
  then show False using c(1) d(1) by simp
qed

lemma digits_no_newline: "nl \<notin> set (dec_digits n)"
  by (rule digits_plain) simp

lemma truncate_no_newline: "nl \<notin> set line \<Longrightarrow> nl \<notin> set (truncate_line line n)"
  using digits_no_newline by (auto simp: truncate_line_def Itoa_def dest: in_set_takeD)

lemma dropCR_sub: "set (dropCR w) \<subseteq> set w"
  by (auto simp: dropCR_def dest: in_set_butlastD in_set_takeD)

lemma scan_lines_no_newline: "w \<in> set (fst (scan_lines cap s)) \<Longrightarrow> nl \<notin> set w"
proof (induction cap s rule: scan_lines.induct)
  case (1 cap s)
  let ?w = "takeWhile (\<lambda>c. c \<noteq> nl) s"
  have w: "nl \<notin> set (dropCR ?w)" using dropCR_sub [of ?w] set_takeWhileD by fastforce
  show ?case
  proof (cases "s \<noteq> [] \<and> length ?w < length s \<and> length ?w < cap")
    case True
    with 1 w show ?thesis by (auto simp: scan_lines.simps [of cap s] Let_def case_prod_unfold)
  next
    case False
    show ?thesis
    proof (cases "s = [] \<or> cap \<le> length s")
      case True
      with 1(2) False show ?thesis by (auto simp: scan_lines.simps [of cap s] Let_def split: if_splits)
    next
      case short: False
      with False have "length s \<le> length ?w" by auto
      then have eq: "?w = s" by (metis takeWhile_eq_take take_all)
      have "fst (scan_lines cap s) = [dropCR s]" using short by (subst scan_lines.simps) (simp only: Let_def eq, simp)
      then show ?thesis using 1(2) w unfolding eq by simp
    qed
  qed
qed

lemma shown_no_newline: "nl \<notin> set line \<Longrightarrow> nl \<notin> set (shown line)"
  by (simp add: shown_def truncate_no_newline)

lemma logged_line:
  assumes "14 \<le> length up" and "bs \<noteq> []"
  shows "stdout_of (logvout up bs) = (log_header prefix_N1 up @ bs) @ [nl]" and "length (log_header prefix_N1 up) = 19"
proof -
  have p: "stdout_of (map (Pair 1) ws) = concat ws" for ws by (induction ws) simp_all
  show "stdout_of (logvout up bs) = (log_header prefix_N1 up @ bs) @ [nl]" "length (log_header prefix_N1 up) = 19"
    using Logv_line [of prefix_N1 "[Some bs]" up] assms
    by (simp_all add: logvout_def p [simplified] prefix_N1_def prefix_Line_def newline_def)
qed

lemma header_no_newline: "nl \<notin> set up \<Longrightarrow> nl \<notin> set (log_header prefix_N1 up)"
  by (auto simp: log_header_def prefix_N1_def dest: in_set_takeD in_set_dropD)

lemma console_lines:
  assumes "\<And>k. 14 \<le> length (ups k)"
  shows "list_all (\<lambda>b. b \<noteq> []) bss \<Longrightarrow> \<exists>hs. length hs = length bss \<and> list_all (\<lambda>h. length h = 19 \<and> (\<exists>k. h = log_header prefix_N1 (ups k))) hs
    \<and> stdout_of (console ups k (map (Pair 1) bss)) = concat (map (\<lambda>(h, b). (h @ b) @ [nl]) (zip hs bss))"
proof (induction bss arbitrary: k)
  case Nil
  then show ?case by simp
next
  case (Cons b bss)
  then obtain hs where hs: "length hs = length bss" "list_all (\<lambda>h. length h = 19 \<and> (\<exists>k. h = log_header prefix_N1 (ups k))) hs"
    "stdout_of (console ups (Suc k) (map (Pair 1) bss)) = concat (map (\<lambda>(h, b). (h @ b) @ [nl]) (zip hs bss))"
    by auto
  let ?h = "log_header prefix_N1 (ups k)"
  have "b \<noteq> []" using Cons.prems by simp
  note l = logged_line [OF assms this, of k]
  show ?case by (rule exI [of _ "?h # hs"]) (use hs l in auto)
qed

lemma drop_headers:
  "length hs = length bss \<Longrightarrow> list_all (\<lambda>h. length h = n) hs \<Longrightarrow> map (drop n) (map (\<lambda>(h, b). h @ b) (zip hs bss)) = bss"
  by (induction hs bss rule: list_induct2) simp_all

text \<open>C22. The log of a lobby lists the output of the game: cut into lines and without the 19 bytes of the
  header, it is the lines of standard output in order, each as it was, but for JSON that is cut
  short, and without the known noise.\<close>

theorem lobby_log_lists_the_output:
  assumes "\<And>k. 14 \<le> length (ups k) \<and> nl \<notin> set (ups k)" and "l_out l = []"
  shows "let l' = fold (scan_line lb 1) (fst (scan_lines cap input)) l;
      log = stdout_of (console ups 0 (l_out l'))
    in map (drop 19) (butlast (Split log nl)) = filter (\<lambda>b. b \<noteq> []) (map shown (fst (scan_lines cap input)))"
proof -
  let ?bss = "filter (\<lambda>b. b \<noteq> []) (map shown (fst (scan_lines cap input)))"
  have out: "l_out (fold (scan_line lb 1) (fst (scan_lines cap input)) l) = map (Pair 1) ?bss"
    by (simp only: scan_lines_out assms(2) append_Nil)
  have ups: "14 \<le> length (ups k)" for k using assms(1) by blast
  have "list_all (\<lambda>b. b \<noteq> []) ?bss" by (simp add: list_all_iff)
  from console_lines [of ups, OF ups this] obtain hs where hs: "length hs = length ?bss"
    "list_all (\<lambda>h. length h = 19 \<and> (\<exists>k. h = log_header prefix_N1 (ups k))) hs"
    "stdout_of (console ups 0 (map (Pair 1) ?bss)) = concat (map (\<lambda>(h, b). (h @ b) @ [nl]) (zip hs ?bss))" by blast
  let ?ls = "map (\<lambda>(h, b). h @ b) (zip hs ?bss)"
  have h: "nl \<notin> set h" if "h \<in> set hs" for h using hs(2) that assms(1) header_no_newline by (auto simp: list_all_iff)
  have b: "nl \<notin> set b" if "b \<in> set ?bss" for b using that scan_lines_no_newline shown_no_newline by fastforce
  have "list_all (\<lambda>w. nl \<notin> set w) ?ls"
    using h b by (auto simp: list_all_iff dest: set_zip_leftD set_zip_rightD)
  moreover have "concat (map (\<lambda>(h, b). (h @ b) @ [nl]) (zip hs ?bss)) = concat (map (\<lambda>w. w @ [nl]) ?ls)"
    by (simp add: case_prod_unfold o_def)
  ultimately have "butlast (Split (stdout_of (console ups 0 (map (Pair 1) ?bss))) nl) = ?ls"
    using Split_lines [of ?ls] hs(3) by simp
  moreover have "map (drop 19) ?ls = ?bss"
    using hs(1,2) by (intro drop_headers) (auto simp: list_all_iff)
  ultimately show ?thesis by (simp only: Let_def out)
qed

theorem lobby_log_lists_the_output_witness:
  "let l' = fold (scan_line sample_lib 1) (fst (scan_lines 100 (''hello'' @ [nl] @ ''world''))) sample_lobby;
      log = stdout_of (console (\<lambda>k. ''0.000000000001s'') 0 (l_out l'))
   in map (drop 19) (butlast (Split log nl)) = [''hello'', ''world'']"
proof -
  have o: "l_out sample_lobby = []" by (simp add: sample_lobby_def fresh_lobby_def)
  have s: "fst (scan_lines 100 (''hello'' @ [nl] @ ''world'')) = [''hello'', ''world'']"
    by (simp add: scan_lines.simps dropCR_def)
  have i: "\<not> ignored stdoutIgnorePrefixes [] (TrimSpace ''hello'')" "\<not> ignored stdoutIgnorePrefixes [] (TrimSpace ''world'')"
    by (rule not_ignored [of "CHR ''h''"]; simp add: stdoutIgnorePrefixes_def)
      (rule not_ignored [of "CHR ''w''"]; simp add: stdoutIgnorePrefixes_def)
  have "filter (\<lambda>b. b \<noteq> []) (map shown [''hello'', ''world'']) = [''hello'', ''world'']" using i by (simp add: shown_def)
  then show ?thesis
    using lobby_log_lists_the_output [of "\<lambda>k. ''0.000000000001s''" sample_lobby sample_lib 100 "''hello'' @ [nl] @ ''world''"] o
    unfolding s by simp
qed

end
