(* ===== verification/LobbyFiles.thy ===== *)
theory LobbyFiles
  imports LobbyLog
begin

text \<open>
  Which files a lobby touches. \<open>foreign opts q\<close> says that \<open>q\<close> is none of them: no pid file, not in the
  status directory, and in the log directory neither a match nor a log of the game. \<open>keeps q\<close> is the
  relation of two lobbies, the second of which agrees on such a file and has written more; it holds of every operation, so of every handler
  (by \<open>lobby_relation\<close>) and of every execution. This closes the gap between the log files of
  \<open>public/lobby\<close> and what runs while they are open.
\<close>

text \<open>The name of \<open>q\<close> in the directory \<open>dir\<close>, if it is directly in it.\<close>

definition entry_of :: "bytes \<Rightarrow> bytes \<Rightarrow> bytes option" where
  "entry_of dir q =
     (let p = dir_prefix dir; n = drop (length p) (Clean q) in
      if dir \<noteq> '''' \<and> HasPrefix (Clean q) p \<and> simple_name n then Some n else None)"

definition log_entry :: "bytes \<Rightarrow> bool" where
  "log_entry n \<longleftrightarrow> n = ''Player.log'' \<or> n = ''Player-prev.log''
     \<or> list_ex (HasSuffix n) [''-match.json.gz'', ''-clean.json.gz'', ''-match.json.gz.lock'', ''-clean.json.gz.lock'']"

definition foreign :: "lobby_options \<Rightarrow> bytes \<Rightarrow> bool" where
  "foreign opts q \<longleftrightarrow> list_all (\<lambda>f. Clean q \<noteq> Clean f) (Split (PidFile opts) comma)
     \<and> entry_of (StatDir opts) q = None
     \<and> (case entry_of (LogDir opts) q of None \<Rightarrow> True | Some n \<Rightarrow> \<not> log_entry n)"

lemma entry_of_join: "dir \<noteq> '''' \<Longrightarrow> simple_name n \<Longrightarrow> Clean q = PJoin [dir, n] \<Longrightarrow> entry_of dir q = Some n"
  by (simp add: entry_of_def PJoin_name)

definition stamps_ok :: "lib \<Rightarrow> bool" where
  "stamps_ok lb \<longleftrightarrow> (\<forall>t. slash \<notin> set (format_time lb t))"

definition keeps :: "bytes \<Rightarrow> lobby \<Rightarrow> lobby \<Rightarrow> bool" where
  "keeps q l l' \<longleftrightarrow> l_opts l' = l_opts l
     \<and> (foreign (l_opts l) q \<longrightarrow> file_at (l_disk l') q = file_at (l_disk l) q)
     \<and> (healthy (l_disk l) \<longrightarrow> healthy (l_disk l'))
     \<and> (\<exists>xs. l_out l' = l_out l @ xs)"

lemma keeps_refl [simp]: "keeps q l l"
  by (simp add: keeps_def)

lemma keeps_trans [trans]: "keeps q a b \<Longrightarrow> keeps q b c \<Longrightarrow> keeps q a c"
  by (auto simp: keeps_def)

lemma keeps_same: "l_disk l' = l_disk l \<Longrightarrow> l_opts l' = l_opts l \<Longrightarrow> l_out l' = l_out l \<Longrightarrow> keeps q l l'"
  by (simp add: keeps_def)

section \<open>The operations\<close>

lemma foreign_pid_apart: "foreign (l_opts l) q \<Longrightarrow> pid_apart l q"
  by (cases "Split (PidFile (l_opts l)) comma") (fastforce simp: foreign_def pid_apart_def list_all_iff)+

lemma keeps_setstat: "simple_name n \<Longrightarrow> keeps q l (snd (setstat lb n v l))"
proof -
  assume n: "simple_name n"
  have "file_at (l_disk (snd (setstat lb n v l))) q = file_at (l_disk l) q" if f: "foreign (l_opts l) q"
  proof -
    have p: "file_at (pid_stat n v l d) q = file_at d q" for d
      using pid_stat_frame [OF foreign_pid_apart [OF f]] .
    have s: "file_at (snd (file_stat lb (StatDir (l_opts l)) n v d)) q = file_at d q" if "StatDir (l_opts l) \<noteq> ''''" for d
    proof (rule file_stat_frame [OF that n])
      have "entry_of (StatDir (l_opts l)) q = None" using f by (simp add: foreign_def)
      then show "Clean q \<notin> {PJoin [StatDir (l_opts l), n], PJoin [StatDir (l_opts l), n @ ''.lock''],
          PJoin [StatDir (l_opts l), ''last'' @ n]}"
        using entry_of_join [OF that] n simple_name_ext [OF n] by fastforce
    qed
    show ?thesis using p s by (simp add: setstat_def Let_def case_prod_unfold)
  qed
  then show ?thesis by (simp add: keeps_def)
qed

lemma keeps_newstat: "simple_name n \<Longrightarrow> keeps q l (snd (newstat lb n l))"
proof -
  assume n: "simple_name n"
  have "keeps q l (snd (time_now l))" by (simp add: keeps_def time_now_def)
  from keeps_trans [OF this keeps_setstat [OF n]] keeps_setstat [OF n, of q l]
  show ?thesis by (cases "n = ''match''") (simp_all add: newstat_def time_now_def)
qed

lemma keeps_collect: "keeps q l (collect lb l)"
proof -
  have "keeps q l (snd (remstat lb ''match'' l))" by (simp add: remstat_def keeps_setstat stat_name_simple)
  then show ?thesis by (simp add: keeps_def collect_disk)
qed

interpretation keeps_lobby: lobby_relation "keeps q" for q
proof
  show "keeps q l (l\<lparr>l_out := l_out l @ xs\<rparr>)" for l xs by (simp add: keeps_def)
qed (auto intro: keeps_trans keeps_setstat keeps_newstat keeps_collect keeps_same stat_name_simple)

lemma keeps_writeMatchFile:
  assumes "foreign opts q" and "LogDir opts \<noteq> ''''" and "simple_name n" and "log_entry n" and "log_entry (n @ ''.lock'')"
  shows "file_at (snd (writeMatchFile lb m sm (PJoin [LogDir opts, n]) d)) q = file_at d q"
proof -
  let ?f = "PJoin [LogDir opts, n]"
  have "Clean q \<noteq> PJoin [LogDir opts, n']" if "simple_name n'" "log_entry n'" for n'
    using entry_of_join [OF assms(2) that(1), of q] assms(1) that(2) by (auto simp: foreign_def)
  then have q: "Clean q \<noteq> Clean ?f" "Clean q \<noteq> Clean (?f @ ''.lock'')"
    using assms(3-5) simple_name_ext(1) [OF assms(3)] stat_paths [OF assms(2,3)] by simp_all
  have w: "file_at (snd (write_body lb m (?f @ ''.lock'') d)) q = file_at d q" for d
    using os_frame(5) [OF q(2)] by (simp add: write_body_def case_prod_unfold split: option.split)
  show ?thesis
    using w os_frame(2) [OF q(2)] os_frame(3) [OF q(2,1)] os_frame(6) [OF q(2)]
    by (simp add: writeMatchFile_def Let_def case_prod_unfold split: option.split)
qed

lemma healthy_writeMatchFile: "healthy d \<Longrightarrow> healthy (snd (writeMatchFile lb m sm f d))"
proof -
  have "healthy d \<Longrightarrow> healthy (snd (write_body lb m k d))" for k d
    by (simp add: write_body_def case_prod_unfold inv_rules split: option.split)
  then show "healthy d \<Longrightarrow> healthy (snd (writeMatchFile lb m sm f d))"
    by (simp add: writeMatchFile_def Let_def case_prod_unfold inv_rules split: option.split)
qed

lemma keeps_collector_step:
  assumes "stamps_ok lb" and "LogDir (l_opts l) \<noteq> ''''"
  shows "keeps q l (collector_step lb m l)"
proof -
  have w: "keeps q l' (write_or_cancel lb m' sm (PJoin [LogDir (l_opts l'), n]) l')"
    if "LogDir (l_opts l') \<noteq> ''''" "simple_name n" "log_entry n" "log_entry (n @ ''.lock'')" for l' m' sm n
  proof -
    let ?d = "snd (writeMatchFile lb m' sm (PJoin [LogDir (l_opts l'), n]) (l_disk l'))"
    have "keeps q l' (l'\<lparr>l_disk := ?d\<rparr>)"
      using keeps_writeMatchFile [OF _ that] healthy_writeMatchFile by (simp add: keeps_def)
    from this keeps_trans [OF this keeps_lobby.R_Cancel] show ?thesis
      by (simp add: write_or_cancel_def case_prod_unfold Let_def)
  qed
  have n: "simple_name (match_stamp lb m' @ ''-match.json.gz'')" "simple_name (match_stamp lb m' @ ''-clean.json.gz'')" for m'
    using assms(1) by (simp_all add: simple_stamp stamps_ok_def slash_def)
  have e: "log_entry (ts @ ''-match.json.gz'')" "log_entry (ts @ ''-clean.json.gz'')"
    "log_entry ((ts @ ''-match.json.gz'') @ ''.lock'')" "log_entry ((ts @ ''-clean.json.gz'') @ ''.lock'')" for ts
    unfolding log_entry_def by (simp_all add: HasSuffix_iff)
  define l1 where "l1 = write_or_cancel lb (Normalize m) (match_meta (l_session l))
      (PJoin [LogDir (l_opts l), match_stamp lb (Normalize m) @ ''-match.json.gz'']) l"
  have 1: "keeps q l l1" unfolding l1_def by (rule w [OF assms(2) n(1) e(1,3)])
  then have o: "l_opts l1 = l_opts l" by (simp add: keeps_def)
  have "keeps q l1 (write_or_cancel lb (Anonymize (Normalize m)) (match_meta (l_session l))
      (PJoin [LogDir (l_opts l1), match_stamp lb (Normalize m) @ ''-clean.json.gz'']) l1)"
    by (rule w [OF _ n(2) e(2,4)]) (simp add: o assms(2))
  from keeps_trans [OF 1 this] show ?thesis
    by (simp add: collector_step_def Let_def l1_def [symmetric] o)
qed

lemma keeps_tick: "keeps q l (snd (snd (watcher_tick lb now lastup l)))"
proof -
  have t: "keeps q l (snd (time_now l))" by (simp add: keeps_def time_now_def)
  then show ?thesis
    using watcher_tick_shape [of lb now lastup l] keeps_trans [OF t keeps_lobby.R_Cancel] by auto
qed

lemma keeps_scanner_end: "keeps q l (scanner_end lb fd l)"
proof -
  have "keeps q l' (close_matches l')" for l' by (rule keeps_same) (simp_all add: close_matches_def)
  from keeps_trans [OF keeps_collect this] have "keeps q l (if fd = 1 then close_matches (collect lb l) else l)"
    by simp
  from keeps_trans [OF this keeps_lobby.R_Cancel] show ?thesis by (simp add: scanner_end_def)
qed

lemma keeps_rem_all: "list_all simple_name ns \<Longrightarrow> keeps q l (snd (rem_all lb ns l))"
proof (induction ns arbitrary: l)
  case (Cons n ns)
  then have "keeps q l (snd (setstat lb n None l))" by (simp add: keeps_setstat)
  from this keeps_trans [OF this] Cons show ?case by (simp add: case_prod_unfold split: option.split)
qed simp

lemma keeps_remstats: "keeps q l (snd (remstats lb [] l))"
proof -
  let ?r = "os_ReadDir (StatDir (l_opts l)) (l_disk l)"
  have d: "file_at (snd (snd ?r)) p = file_at (l_disk l) p" "healthy (l_disk l) \<Longrightarrow> healthy (snd (snd ?r))" for p
    by (simp_all add: os_ReadDir_def)
  have 1: "keeps q l (l\<lparr>l_disk := snd (snd ?r)\<rparr>)" using d by (simp add: keeps_def)
  have "list_all simple_name (filter P (fst ?r))" for P
    by (auto simp: os_ReadDir_def entries_def list_all_iff)
  from keeps_trans [OF 1 keeps_rem_all [OF this]] 1 show ?thesis
    by (simp add: remstats_def case_prod_unfold split: option.split)
qed

section \<open>Alloc and its end\<close>

lemma keeps_alloc_pidfile: "alloc_pidfile hs l = (e, l') \<Longrightarrow> keeps q l l'"
proof -
  let ?f = "hd (Split (PidFile (l_opts l)) comma)"
  have "Split (PidFile (l_opts l)) comma \<noteq> []" by (rule Split_nonempty)
  then have "foreign (l_opts l) q \<Longrightarrow> Clean q \<noteq> Clean ?f" by (auto simp: foreign_def list_all_iff)
  then show "alloc_pidfile hs l = (e, l') \<Longrightarrow> keeps q l l'"
    by (auto simp: alloc_pidfile_def Let_def keeps_def os_frame inv_rules split: if_splits prod.splits)
      (metis os_frame(1) snd_conv, metis os_healthy(1) snd_conv)
qed

lemma player_logs_apart:
  assumes "foreign (l_opts l) q" and "LogDir (l_opts l) \<noteq> ''''"
  shows "Clean q \<noteq> Clean (player_log l)" and "Clean q \<noteq> Clean (PJoin [LogDir (l_opts l), ''Player-prev.log''])"
proof -
  have n: "simple_name ''Player.log''" "simple_name ''Player-prev.log''" by (simp_all add: simple_name_def slash_def)
  have "Clean q \<noteq> PJoin [LogDir (l_opts l), n']" if "simple_name n'" "log_entry n'" for n'
    using entry_of_join [OF assms(2) that(1), of q] assms(1) that(2) by (auto simp: foreign_def)
  with n show "Clean q \<noteq> Clean (player_log l)" "Clean q \<noteq> Clean (PJoin [LogDir (l_opts l), ''Player-prev.log''])"
    using assms(2) by (simp_all add: player_log_def log_entry_def)
qed

lemma keeps_alloc_spec: "alloc_spec hs h l = (e, h', l') \<Longrightarrow> keeps q l l' \<and> (h_log h' \<longrightarrow> h_log h)"
  by (auto simp: alloc_spec_def keeps_def close_ends_def split: if_splits sum.splits)

lemma keeps_alloc_log:
  assumes "alloc_log h l = (e, h', l')"
  shows "keeps q l l' \<and> (h_log h' \<longrightarrow> h_log h \<or> LogDir (l_opts l) \<noteq> '''')"
proof (cases "LogDir (l_opts l) \<noteq> '''' \<and> Debug (l_opts l)")
  case True
  let ?d = "snd (os_Create (player_log l) (l_disk l))"
  have "keeps q l (l\<lparr>l_disk := ?d\<rparr>)"
    using player_logs_apart(1) [of l q] True by (simp add: keeps_def os_frame inv_rules)
  then show ?thesis using assms True by (auto simp: alloc_log_def split: prod.splits option.splits)
qed (use assms in \<open>auto simp: alloc_log_def\<close>)

lemma keeps_alloc_commit: "keeps q l (alloc_commit hs args l)"
  by (rule keeps_same) (simp_all add: alloc_commit_def time_now_def Let_def)

lemma alloc_pipes_log: "alloc_pipes hs h = (e, h') \<Longrightarrow> h_log h' = h_log h"
  by (auto simp: alloc_pipes_def Let_def close_ends_def open_ends_def split: option.splits)

lemma keeps_alloc:
  assumes "alloc hs l = (e, h, l')"
  shows "keeps q l l' \<and> (h_log h \<longrightarrow> LogDir (l_opts l) \<noteq> '''')"
proof (cases "hs_lookpath hs (hd (alloc_args (l_opts l)))")
  case (Inl x)
  then show ?thesis using assms by (auto simp: alloc_def Let_def nothing_held_def)
next
  case (Inr exe)
  obtain e1 l1 where 1: "alloc_pidfile hs l = (e1, l1)" by fastforce
  obtain e2 h2 where 2: "alloc_pipes hs nothing_held = (e2, h2)" by fastforce
  obtain e3 h3 l3 where 3: "alloc_spec hs h2 l1 = (e3, h3, l3)" by (metis prod_cases3)
  obtain e4 h4 l4 where 4: "alloc_log h3 l3 = (e4, h4, l4)" by (metis prod_cases3)
  note k1 = keeps_alloc_pidfile [OF 1, of q] and k3 = keeps_alloc_spec [OF 3, of q] and k4 = keeps_alloc_log [OF 4, of q]
  have h2: "\<not> h_log h2" using alloc_pipes_log [OF 2] by (simp add: nothing_held_def)
  have t: "keeps q l l3" "keeps q l l4" using keeps_trans [OF k1] keeps_trans k3 k4 by blast+
  have o: "LogDir (l_opts l3) = LogDir (l_opts l)" using t(1) by (simp add: keeps_def)
  have l: "(h_log h3 \<longrightarrow> False) \<and> (h_log h4 \<longrightarrow> LogDir (l_opts l) \<noteq> '''')" using h2 k3 k4 o by auto
  have c: "keeps q l (alloc_commit hs args l4)" for args by (rule keeps_trans [OF t(2) keeps_alloc_commit])
  have n: "\<not> h_log nothing_held" by (simp add: nothing_held_def)
  have "alloc hs l = (if e1 \<noteq> None then (e1, nothing_held, l1) else if e2 \<noteq> None then (e2, h2, l1)
      else if e3 \<noteq> None then (e3, h3, l3) else if e4 \<noteq> None then (e4, h4, l4)
      else (None, h4, alloc_commit hs (exe # tl (alloc_args (l_opts l))) l4))"
    by (cases e1; cases e2; cases e3; cases e4; simp add: alloc_def Let_def Inr 1 2 3 4)
  with assms have "(e, h, l') = \<dots>" by simp
  then show ?thesis using k1 h2 t l c n by (auto split: if_splits)
qed

lemma keeps_alloc_done:
  assumes "alloc_done h l = (h', l')" and "h_log h \<longrightarrow> LogDir (l_opts l) \<noteq> ''''"
  shows "keeps q l l' \<and> \<not> h_log h'"
proof -
  let ?d = "snd (os_Rename (player_log l) (PJoin [LogDir (l_opts l), ''Player-prev.log'']) (l_disk l))"
  have "keeps q l (l\<lparr>l_disk := ?d\<rparr>)" if "h_log h"
    using player_logs_apart [of l q] assms(2) that by (simp add: keeps_def os_frame inv_rules)
  moreover have "keeps q l' (l'\<lparr>l_t2 := t, l_reads := n\<rparr>)" for l' t n by (rule keeps_same) simp_all
  ultimately show ?thesis using assms(1)
    by (auto simp: alloc_done_def Let_def time_now_def keeps_def split: if_splits)
qed

section \<open>Executions\<close>

definition logs_ok :: "sys \<Rightarrow> bool" where
  "logs_ok s \<longleftrightarrow> (0 < s_colls s \<or> h_log (s_held s) \<longrightarrow> LogDir (l_opts (s_lobby s)) \<noteq> '''')"

definition sys_keeps :: "bytes \<Rightarrow> sys \<Rightarrow> sys \<Rightarrow> bool" where
  "sys_keeps q s t \<longleftrightarrow> keeps q (s_lobby s) (s_lobby t) \<and> s_colls t \<le> s_colls s \<and> (h_log (s_held t) \<longrightarrow> h_log (s_held s))"

lemma sys_keeps_logs: "sys_keeps q s t \<Longrightarrow> logs_ok s \<Longrightarrow> logs_ok t"
  by (auto simp: sys_keeps_def logs_ok_def keeps_def)

lemma close_ends_log [simp]: "h_log (close_ends es h) = h_log h"
  by (simp add: close_ends_def)

lemma keeps_drain: "sys_keeps q s (drain lb r s)"
  by (simp add: sys_keeps_def drain_def keeps_lobby.R_Cancel)

lemma keeps_game_exit: "sys_keeps q s (game_exit lb pid werr s)"
proof -
  let ?l = "(s_lobby s)\<lparr>l_proc := Exited pid\<rparr>"
  have "keeps q (s_lobby s) ?l" by (rule keeps_same) simp_all
  from keeps_trans [OF keeps_trans [OF this keeps_lobby.R_Cancel] keeps_lobby.R_remstat]
  have "keeps q (s_lobby s) (snd (remstat lb ''up'' (snd (Cancel lb werr ?l))))" by simp
  from keeps_trans [OF this keeps_lobby.R_Cancel] show ?thesis
    by (simp add: game_exit_def case_prod_unfold sys_keeps_def drain_def)
qed

lemma keeps_finish: "logs_ok s \<Longrightarrow> sys_keeps q s (finish lb s)"
proof -
  assume s: "logs_ok s"
  let ?l = "snd (remstats lb [] (s_lobby s))"
  obtain h' l' where d: "alloc_done (s_held s) ?l = (h', l')" by fastforce
  have k: "keeps q (s_lobby s) ?l" by (rule keeps_remstats)
  have "keeps q ?l l' \<and> \<not> h_log h'"
    by (rule keeps_alloc_done [OF d]) (use s k in \<open>auto simp: logs_ok_def keeps_def\<close>)
  with keeps_trans [OF k] show ?thesis by (simp add: finish_def d sys_keeps_def)
qed

lemma step_keeps:
  assumes "lstep lb s t" and "sys_ok s" and "stamps_ok lb" and "logs_ok s"
  shows "sys_keeps q s t"
proof -
  have p: "players_ok (l_players (s_lobby s))" using sys_ok_lobby [OF assms(2)] by (simp add: lobby_ok_def)
  have c: "keeps q (s_lobby s) (collector_step lb m ((s_lobby s)\<lparr>l_matches := ms\<rparr>))" if "0 < s_colls s" for m ms
  proof -
    have 1: "keeps q (s_lobby s) ((s_lobby s)\<lparr>l_matches := ms\<rparr>)" by (rule keeps_same) simp_all
    show ?thesis
      by (rule keeps_trans [OF 1 keeps_collector_step [OF assms(3)]]) (use assms(4) that in \<open>simp add: logs_ok_def\<close>)
  qed
  have w: "keeps q (s_lobby s) l" if "watcher_tick lb now lastup (s_lobby s) = (b, lastup', l)" for now lastup b lastup' l
    using keeps_tick [of q "s_lobby s" lb now lastup] that by simp
  have sp: "keeps q (s_lobby s) ((s_lobby s)\<lparr>l_spec := sp\<rparr>)" for sp by (rule keeps_same) simp_all
  note k = keeps_lobby.R_scan_line [OF p] keeps_scanner_end keeps_lobby.R_Cancel keeps_game_exit keeps_finish [OF assms(4)]
  show ?thesis
    by (rule lstepE [OF assms(1)]; hypsubst)
      (use k c sp w keeps_trans [OF w keeps_lobby.R_Cancel] in \<open>auto simp: sys_keeps_def\<close>)
qed

lemma steps_keep:
  "lsteps lb s t \<Longrightarrow> sys_ok s \<Longrightarrow> stamps_ok lb \<Longrightarrow> logs_ok s \<Longrightarrow> keeps q (s_lobby s) (s_lobby t) \<and> logs_ok t"
proof (induction rule: lsteps.induct)
  case (one_more s t u)
  then have "keeps q (s_lobby s) (s_lobby t)" "logs_ok t" by simp_all
  moreover from step_keeps [OF one_more(2) sys_steps [OF one_more(1,4)] one_more(5) this(2)]
  have "sys_keeps q t u" .
  ultimately show ?case using sys_keeps_logs keeps_trans by (auto simp: sys_keeps_def)
qed simp

lemma start_keeps: "keeps q l (s_lobby (runc_start lb hs start l)) \<and> logs_ok (runc_start lb hs start l)"
proof -
  obtain e h l1 where a: "alloc hs l = (e, h, l1)" by (metis prod_cases3)
  note k = keeps_alloc [OF a, of q]
  have o: "l_opts l1 = l_opts l" using k by (simp add: keeps_def)
  show ?thesis
  proof (cases e)
    case (Some x)
    with k keeps_trans [OF conjunct1 [OF k] keeps_lobby.R_Cancel] show ?thesis
      by (auto simp: runc_start_def a case_prod_unfold logs_ok_def o)
  next
    case None
    let ?l2 = "snd (setstat lb ''session'' (Some (SString (l_session (snd (remstats lb [] l1))))) (snd (remstats lb [] l1)))"
    have 2: "keeps q l ?l2"
      by (rule keeps_trans [OF keeps_trans [OF conjunct1 [OF k] keeps_remstats] keeps_lobby.R_setstat]) simp
    then have o2: "l_opts ?l2 = l_opts l" by (simp add: keeps_def)
    have c: "keeps q l (cancel lb ErrLobbyDone (snd (Cancel lb r ?l2)))" for r
      by (rule keeps_trans [OF keeps_trans [OF 2 keeps_lobby.R_Cancel] keeps_lobby.R_Cancel])
    have "keeps q ?l2 (?l2\<lparr>l_proc := p\<rparr>)" for p by (rule keeps_same) simp_all
    from keeps_trans [OF keeps_trans [OF 2 this] keeps_lobby.R_newstat]
    have u: "keeps q l (snd (newstat lb ''up'' (?l2\<lparr>l_proc := p\<rparr>)))" for p by simp
    have o3: "l_opts (snd (remstats lb [] l1)) = l_opts l"
      using keeps_trans [OF conjunct1 [OF k] keeps_remstats, of lb] by (simp add: keeps_def)
    show ?thesis using None k c u o2 o3
      by (auto simp: runc_start_def a runc_begin_def Let_def case_prod_unfold drain_def logs_ok_def split: sum.split)
  qed
qed


section \<open>The log files of \<open>public/lobby\<close>\<close>

lemma dir_prefix_end: "dir_prefix d = '''' \<or> last (dir_prefix d) = slash"
proof -
  have "cs \<noteq> [] \<Longrightarrow> last (concat (map (\<lambda>c. c @ [slash]) cs)) = slash" for cs :: "bytes list"
    by (cases cs rule: rev_cases) simp_all
  then show ?thesis by (auto simp: dir_prefix_def)
qed

lemma last_slash_unique:
  assumes "p @ m = q @ n" and "slash \<notin> set m" and "slash \<notin> set n" and "p = '''' \<or> last p = slash" and "q = '''' \<or> last q = slash"
  shows "p = q \<and> m = n"
proof -
  from assms(1) obtain us where u: "p = q @ us \<and> us @ m = n \<or> p @ us = q \<and> m = us @ n" by (auto simp: append_eq_append_conv2)
  have "us = []"
  proof (rule ccontr)
    assume us: "us \<noteq> []"
    then have "last us \<in> set us" by simp
    with u us assms(2-5) show False by (metis Un_iff append_is_Nil_conv last_appendR set_append)
  qed
  with u show ?thesis by auto
qed

text \<open>The status files and the pid files are not in the log directory.\<close>

definition separate :: "lobby_options \<Rightarrow> bool" where
  "separate opts \<longleftrightarrow> (StatDir opts = '''' \<or> dir_prefix (StatDir opts) \<noteq> dir_prefix (LogDir opts))
     \<and> list_all (\<lambda>f. entry_of (LogDir opts) f = None) (Split (PidFile opts) comma)"

lemma separate_foreign:
  assumes "separate opts" and "LogDir opts \<noteq> ''''" and "simple_name n" and "\<not> log_entry n"
  shows "foreign opts (PJoin [LogDir opts, n])"
proof -
  let ?q = "PJoin [LogDir opts, n]"
  have q: "Clean ?q = dir_prefix (LogDir opts) @ n"
    using stat_paths(2) [OF assms(2,3)] PJoin_name [OF assms(2,3)] by simp
  have e: "entry_of (LogDir opts) ?q = Some n" using assms(2,3) by (intro entry_of_join) simp_all
  have "entry_of (StatDir opts) ?q = None"
  proof (rule ccontr)
    assume "entry_of (StatDir opts) ?q \<noteq> None"
    then obtain m where m: "StatDir opts \<noteq> ''''" "Clean ?q = dir_prefix (StatDir opts) @ m" "simple_name m"
      by (auto simp: entry_of_def Let_def HasPrefix_iff split: if_splits)
    have "dir_prefix (LogDir opts) = dir_prefix (StatDir opts) \<and> n = m"
      by (rule last_slash_unique) (use m q assms(3) dir_prefix_end in \<open>simp_all add: simple_name_def\<close>)
    with m(1) assms(1) show False by (simp add: separate_def)
  qed
  moreover have "Clean ?q \<noteq> Clean f" if "f \<in> set (Split (PidFile opts) comma)" for f
    using assms(1) that e by (auto simp: separate_def list_all_iff entry_of_def)
  ultimately show ?thesis using e assms(4) by (simp add: foreign_def list_all_iff)
qed

lemma log_files_foreign:
  assumes "separate opts" and "LogDir opts \<noteq> ''''" and "slash \<notin> set (sh_seconds sh now)"
  shows "foreign opts (lobby_log opts)" and "foreign opts (lobby_log_gz sh now opts @ ''.lock'')"
proof -
  define n where "n = ReplaceAll (sh_seconds sh now) (CHR 0x3A) ''_'' @ ''-lobby.log.gz''"
  have s: "slash \<notin> set (ReplaceAll (sh_seconds sh now) (CHR 0x3A) ''_'')"
    using assms(3) by (auto simp: ReplaceAll_def slash_def split: if_splits)
  have n: "simple_name n" "simple_name (n @ ''.lock'')" "simple_name ''lobby.log''"
    using s by (auto simp: simple_name_def n_def slash_def Cons_eq_append_conv append_eq_Cons_conv)
  have l: "lobby_log_gz sh now opts @ ''.lock'' = PJoin [LogDir opts, n @ ''.lock'']"
    unfolding lobby_log_gz_def n_def [symmetric] by (rule PJoin_suffix) (use assms(2) n in simp_all)
  have "\<not> HasSuffix ''lobby.log'' w" if "last w \<noteq> CHR ''g''" "w \<noteq> []" for w
  proof
    assume "HasSuffix ''lobby.log'' w"
    then obtain t where t: "''lobby.log'' = t @ w" by (auto simp: HasSuffix_iff)
    have "last ''lobby.log'' = last w" unfolding t using that(2) by simp
    with that(1) show False by simp
  qed
  then have a: "\<not> log_entry ''lobby.log''" by (simp add: log_entry_def)
  show "foreign opts (lobby_log opts)"
    unfolding lobby_log_def by (rule separate_foreign [OF assms(1,2) n(3) a])
  have b: "\<not> log_entry (n @ ''.lock'')"
  proof -
    have r: "rev (n @ ''.lock'') = ''kcol.zg.gol.ybbol-'' @ rev (ReplaceAll (sh_seconds sh now) (CHR 0x3A) ''_'')"
      by (simp add: n_def)
    have "HasSuffix s w \<longleftrightarrow> (\<exists>t. rev s = rev w @ t)" for s w
      by (metis HasSuffix_iff rev_append rev_rev_ident)
    moreover have "n @ ''.lock'' \<noteq> w" if "rev w = c # cs" "c \<noteq> CHR ''k''" for w c cs
      using that r by (metis append_Cons list.inject)
    ultimately show ?thesis unfolding log_entry_def using r by auto
  qed
  show "foreign opts (lobby_log_gz sh now opts @ ''.lock'')"
    unfolding l by (rule separate_foreign [OF assms(1,2) n(2) b])
qed


lemma run_keeps:
  assumes "lobby_Run lb hs start clk ce opts d (Some l) r" and "stamps_ok lb"
  shows "keeps q (fresh_lobby opts d clk) l"
  using assms(1)
proof (rule lobby_Run_cases)
  fix t
  assume t: "Some l = Some (s_lobby t)" "lsteps lb (runc_start lb hs start (fresh_lobby opts d clk)) t"
  have ok: "sys_ok (runc_start lb hs start (fresh_lobby opts d clk))" by (rule start_ok [OF fresh_ok])
  note st = start_keeps [of q "fresh_lobby opts d clk" lb hs start]
  from steps_keep [OF t(2) ok assms(2) conjunct2 [OF st], of q] conjunct1 [OF st] t(1)
  show ?thesis by (auto intro: keeps_trans)
qed simp_all

lemma fresh_simps: "l_opts (fresh_lobby opts d clk) = opts" "l_disk (fresh_lobby opts d clk) = d" "l_out (fresh_lobby opts d clk) = []"
  by (simp_all add: fresh_lobby_def)


text \<open>What a \<open>run\<close> of \<open>runc\<close> has to be: for every disk it is an execution of the lobby from there, with
  its result, its uptime and its disk, and what it writes to standard output are the lines of the
  lobby, the \<open>k\<close>-th write of a line with the time stamp \<open>ups k\<close>.\<close>

definition runs_lobby :: "lib \<Rightarrow> host \<Rightarrow> (goerror + int) \<Rightarrow> (nat \<Rightarrow> time) \<Rightarrow> (nat \<Rightarrow> bytes) \<Rightarrow> lobby_options \<Rightarrow> runner \<Rightarrow> bool" where
  "runs_lobby lb hs start clk ups opts run \<longleftrightarrow>
     (\<forall>d. case run d of (ws, up, e, d') \<Rightarrow>
        \<exists>l. lobby_Run lb hs start clk None opts d (Some l) e \<and> d' = l_disk l \<and> up = fst (Uptime (Some l))
          \<and> stdout_of ws = stdout_of (console ups 0 (l_out l)))"

lemma runs_lobbyD:
  "runs_lobby lb hs start clk ups opts run \<Longrightarrow> run d = (ws, up, e, d') \<Longrightarrow>
    \<exists>l. lobby_Run lb hs start clk None opts d (Some l) e \<and> d' = l_disk l \<and> up = fst (Uptime (Some l))
      \<and> stdout_of ws = stdout_of (console ups 0 (l_out l))"
  unfolding runs_lobby_def by (drule spec [of _ d]) simp

text \<open>C21. A run with a log directory leaves its whole output behind: the compressed file under its time
  stamp holds everything written to either stream and its upload attribute, and has no lock file
  left; \<open>lobby.log\<close> holds the lines the lobby let through from standard output, and nothing else; and
  what is returned is the result of the lobby, which has run in between on the same disk.\<close>

theorem lobby_log_holds_the_run:
  assumes "runs_lobby lb hs start clk ups opts run" and "stamps_ok lb" and "separate opts"
    and "healthy d" and "Validate opts = None" and "marshal_meta lb (lobby_meta opts) = Some sm"
    and "LogDir opts \<noteq> ''''" and "slash \<notin> set (sh_seconds sh now)" and "sh_stderr_ok sh"
  shows "\<exists>d0 ws up e d1 l. run d0 = (ws, up, e, d1) \<and> lobby_Run lb hs start clk None opts d0 (Some l) e
    \<and> d1 = l_disk l \<and> stdout_of ws = stdout_of (console ups 0 (l_out l)) \<and>
    (let (r, d') = runc lb sh opts now run d;
      file = lobby_log_gz sh now opts;
      all = map snd (debug_lines sh opts 0 file @ debug_lines sh opts 1 (lobby_log opts) @ ws @ report_lines sh e up)
    in r = e
      \<and> file_at d' file = Some \<lparr>fl_data = gz_stream sh '''' all @ sh_gzend sh (concat all), fl_meta = Some sm\<rparr>
      \<and> file_at d' (file @ ''.lock'') = None
      \<and> data_at d' (lobby_log opts) = Some (stdout_of ws))"
proof -
  note f = log_files_foreign [OF assms(3,7,8)]
  have k: "healthy d' \<and> file_at d' (lobby_log opts) = file_at d (lobby_log opts)
      \<and> file_at d' (lobby_log_gz sh now opts @ ''.lock'') = file_at d (lobby_log_gz sh now opts @ ''.lock'')"
    if r: "run d = (ws, up, e, d')" and h: "healthy d" for d ws up e d'
  proof -
    obtain l where l: "lobby_Run lb hs start clk None opts d (Some l) e" "d' = l_disk l"
      using runs_lobbyD [OF assms(1) r] by blast
    show ?thesis using run_keeps [OF l(1) assms(2)] f h unfolding l(2) keeps_def fresh_simps by blast
  qed
  obtain d0 ws up e d1 where r: "run d0 = (ws, up, e, d1)"
    and log: "let (r, d') = runc lb sh opts now run d;
      file = lobby_log_gz sh now opts;
      all = map snd (debug_lines sh opts 0 file @ debug_lines sh opts 1 (lobby_log opts) @ ws @ report_lines sh e up)
    in r = e
      \<and> file_at d' file = Some \<lparr>fl_data = gz_stream sh '''' all @ sh_gzend sh (concat all), fl_meta = Some sm\<rparr>
      \<and> file_at d' (file @ ''.lock'') = None
      \<and> data_at d' (lobby_log opts) = Some (stdout_of ws)"
    using runc_logs [OF assms(4-9), of run] k by blast
  obtain l where l: "lobby_Run lb hs start clk None opts d0 (Some l) e" "d1 = l_disk l" "stdout_of ws = stdout_of (console ups 0 (l_out l))"
    using runs_lobbyD [OF assms(1) r] by blast
  from r l log show ?thesis by blast
qed


section \<open>Witnesses\<close>

definition sample_clock :: "nat \<Rightarrow> time" where
  "sample_clock n = int n * Second"

lemma sample_stamps_ok: "stamps_ok sample_lib"
proof -
  have "slash \<notin> set (dec_digits n)" for n by (rule digits_plain) (simp add: slash_def)
  then show ?thesis by (simp add: stamps_ok_def sample_lib_def Itoa_def slash_def)
qed

lemma sample_separate: "separate sample_options"
  by code_simp

lemma hello_line: "l_out (scan_line lb 1 ''hello'' l) = l_out l @ [(1, ''hello'')]"
proof -
  have "\<not> ignored stdoutIgnorePrefixes [] (TrimSpace ''hello'')"
    by (rule not_ignored [of "CHR ''h''"]) (simp_all add: stdoutIgnorePrefixes_def)
  then show ?thesis using scan_line_out [of lb "''hello''" l] by (simp add: shown_def)
qed

text \<open>The game prints a line and exits, and everything comes to its end.\<close>

lemma sample_run:
  "\<exists>l r xs. lobby_Run sample_lib good_host (Inr 42) clk None sample_options d (Some l) r \<and> l_out l = (1, ''hello'') # xs"
proof -
  define s where "s = runc_start sample_lib good_host (Inr 42) (fresh_lobby sample_options d clk)"
  define t where "t = s\<lparr>s_lobby := scan_line sample_lib 1 ''hello'' (s_lobby s)\<rparr>"
  note sh = sample_shape [of d clk, folded s_def]
  have st: "lsteps sample_lib s t" using OutLine lsteps_one sh unfolding t_def by blast
  have ok: "sys_ok s" unfolding s_def by (rule start_ok [OF fresh_ok])
  have okt: "sys_ok t" by (rule sys_steps [OF st ok])
  have out: "l_out (s_lobby t) = [(1, ''hello'')]" using sh by (simp add: t_def hello_line [simplified])
  have p: "l_proc (s_lobby t) = Running 42" "s_phase t = Waiting"
    using sh scan_handler.step_legal [of "s_lobby s" sample_lib 1 "''hello''"] sys_ok_lobby [OF ok] ok
    by (simp_all add: t_def legal_def sys_ok_def)
  define u where "u = game_exit sample_lib 42 None t"
  have e: "lsteps sample_lib t u" using Exit lsteps_one p unfolding u_def by blast
  have du: "s_phase u = Draining" by (simp add: u_def game_exit_def case_prod_unfold drain_def)
  obtain v where v: "lsteps sample_lib u v" "s_phase v = Stopped"
    using drain_all [OF sys_steps [OF e okt] du] by blast
  have sv: "lsteps sample_lib s v" by (rule lsteps_trans [OF st lsteps_trans [OF e v(1)]])
  have run: "lobby_Run sample_lib good_host (Inr 42) clk None sample_options d (Some (s_lobby v)) (s_result v)"
    by (rule Completed [OF sv [unfolded s_def] v(2)])
  have lt: "logs_ok t"
    using steps_keep [OF st ok sample_stamps_ok] start_keeps unfolding s_def by blast
  obtain xs where "l_out (s_lobby v) = l_out (s_lobby t) @ xs"
    using steps_keep [OF lsteps_trans [OF e v(1)] okt sample_stamps_ok lt] by (auto simp: keeps_def)
  with run out show ?thesis by auto
qed


theorem lobby_log_holds_the_run_witness:
  "\<exists>run r d' rest. runs_lobby sample_lib good_host (Inr 42) sample_clock (\<lambda>k. ''0.000000000001s'') sample_options run
    \<and> runc sample_lib sample_shell sample_options 0 run sample_disk = (r, d')
    \<and> data_at d' (lobby_log sample_options) = Some (stdout_of (logvout ''0.000000000001s'' ''hello'') @ rest)
    \<and> file_at d' (lobby_log_gz sample_shell 0 sample_options) \<noteq> None"
proof -
  let ?ups = "\<lambda>k. ''0.000000000001s'' :: bytes"
  define P where "P = (\<lambda>d x. \<exists>xs. lobby_Run sample_lib good_host (Inr 42) sample_clock None sample_options d (Some (fst x)) (snd x)
      \<and> l_out (fst x) = (1, ''hello'') # xs)"
  have "\<forall>d. \<exists>x. P d x" using sample_run [of sample_clock] unfolding P_def by (metis fst_conv snd_conv)
  then obtain f where f: "\<And>d. P d (f d)" by (rule choice [THEN exE]) blast
  define run where "run = (\<lambda>d. (console ?ups 0 (l_out (fst (f d))), fst (Uptime (Some (fst (f d)))), snd (f d), l_disk (fst (f d))))"
  have run: "runs_lobby sample_lib good_host (Inr 42) sample_clock ?ups sample_options run"
    unfolding runs_lobby_def run_def using f unfolding P_def by fastforce
  have m: "marshal_meta sample_lib (lobby_meta sample_options) = Some ''text/plain''"
    by (simp add: sample_lib_def lobby_meta_def)
  have o: "healthy sample_disk" "Validate sample_options = None" "LogDir sample_options \<noteq> ''''"
    "slash \<notin> set (sh_seconds sample_shell 0)" "sh_stderr_ok sample_shell"
    by (simp_all add: healthy_def sample_disk_def sample_options_def sample_shell_def slash_def) code_simp
  obtain d0 ws up e d1 l where r: "run d0 = (ws, up, e, d1)"
    and log: "let (r, d') = runc sample_lib sample_shell sample_options 0 run sample_disk;
      file = lobby_log_gz sample_shell 0 sample_options;
      all = map snd (debug_lines sample_shell sample_options 0 file @ debug_lines sample_shell sample_options 1 (lobby_log sample_options)
        @ ws @ report_lines sample_shell e up)
    in r = e
      \<and> file_at d' file = Some \<lparr>fl_data = gz_stream sample_shell '''' all @ sh_gzend sample_shell (concat all), fl_meta = Some ''text/plain''\<rparr>
      \<and> file_at d' (file @ ''.lock'') = None
      \<and> data_at d' (lobby_log sample_options) = Some (stdout_of ws)"
    using lobby_log_holds_the_run [OF run sample_stamps_ok sample_separate o(1,2) m o(3-5)] by blast
  have "\<exists>xs. l_out (fst (f d0)) = (1, ''hello'') # xs" using f [of d0] by (auto simp: P_def)
  then obtain rest where w: "stdout_of ws = stdout_of (logvout ''0.000000000001s'' ''hello'') @ rest"
    using r by (auto simp: run_def)
  obtain r' d' where d': "runc sample_lib sample_shell sample_options 0 run sample_disk = (r', d')" by fastforce
  show ?thesis
    by (rule exI [of _ run], rule exI [of _ r'], rule exI [of _ d'], rule exI [of _ rest])
      (use run log d' w in \<open>simp add: Let_def\<close>)
qed

end
