(* ===== verification/LobbyMatches.thy ===== *)
theory LobbyMatches
  imports LobbyFiles
begin

text \<open>
  No match is left behind. \<open>rests\<close> is the relation of two lobbies of which the second has queued nothing
  once the channel was closed; it holds of every operation, so (by \<open>lobby_relation\<close>) of every handler.
  With the order in which the goroutines end, it gives that a run ends with an empty queue and no
  match in progress.
\<close>

definition rests :: "lobby \<Rightarrow> lobby \<Rightarrow> bool" where
  "rests l l' \<longleftrightarrow> l_opts l' = l_opts l \<and> l_matches_chan l' = l_matches_chan l
     \<and> (l_matches_chan l \<noteq> OpenChan \<longrightarrow> l_matches l' = l_matches l)"

lemma rests_collect: "rests l (collect lb l)"
  by (simp add: rests_def) (simp add: collect_def send_match_def start_match_def time_now_def Let_def split: chan.split)

interpretation rests_lobby: lobby_relation rests
proof
  show "rests l (collect lb l)" for l lb by (rule rests_collect)
qed (simp_all add: rests_def)

lemma write_or_cancel_frame [simp]:
  "l_opts (write_or_cancel lb m sm f l) = l_opts l" "l_matches (write_or_cancel lb m sm f l) = l_matches l"
  "l_matches_chan (write_or_cancel lb m sm f l) = l_matches_chan l" "l_m (write_or_cancel lb m sm f l) = l_m l"
  by (simp_all add: write_or_cancel_def Let_def case_prod_unfold)

lemma collector_step_frame [simp]:
  "l_opts (collector_step lb m l) = l_opts l" "l_matches (collector_step lb m l) = l_matches l"
  "l_matches_chan (collector_step lb m l) = l_matches_chan l" "l_m (collector_step lb m l) = l_m l"
  by (simp_all add: collector_step_def Let_def)

lemma remstats_frame [simp]:
  "l_opts (snd (remstats lb ns l)) = l_opts l" "l_matches (snd (remstats lb ns l)) = l_matches l"
  "l_matches_chan (snd (remstats lb ns l)) = l_matches_chan l" "l_m (snd (remstats lb ns l)) = l_m l"
proof -
  obtain d where "snd (remstats lb ns l) = l\<lparr>l_disk := d\<rparr>" using remstats_shape by blast
  then show "l_opts (snd (remstats lb ns l)) = l_opts l" "l_matches (snd (remstats lb ns l)) = l_matches l"
    "l_matches_chan (snd (remstats lb ns l)) = l_matches_chan l" "l_m (snd (remstats lb ns l)) = l_m l" by simp_all
qed

lemma tick_frame:
  assumes "watcher_tick lb now lastup l = (b, lastup', l')"
  shows "l_opts l' = l_opts l" and "l_matches l' = l_matches l" and "l_matches_chan l' = l_matches_chan l" and "l_m l' = l_m l"
  using watcher_tick_shape [of lb now lastup l] assms by (auto simp: time_now_def)

lemma stderr_line_frame: "l_m (scan_line lb 2 line l) = l_m l"
  by (simp add: scan_line_def lfilter_def)

lemma alloc_done_frame:
  "l_opts (snd (alloc_done h l)) = l_opts l" "l_matches (snd (alloc_done h l)) = l_matches l"
  "l_matches_chan (snd (alloc_done h l)) = l_matches_chan l" "l_m (snd (alloc_done h l)) = l_m l"
  by (simp_all add: alloc_done_def Let_def time_now_def)

section \<open>Executions\<close>

definition drained :: "lobby_options \<Rightarrow> sys \<Rightarrow> bool" where
  "drained opts s \<longleftrightarrow> l_opts (s_lobby s) = opts
     \<and> (LogDir (l_opts (s_lobby s)) \<noteq> '''' \<and> s_colls s < 2 \<longrightarrow>
       l_matches (s_lobby s) = [] \<and> l_matches_chan (s_lobby s) \<noteq> OpenChan)
     \<and> (\<not> s_out s \<longrightarrow> MatchID (l_m (s_lobby s)) = '''')"

lemma scanner_end_1: "l_opts (scanner_end lb 1 l) = l_opts l" "l_matches_chan (scanner_end lb 1 l) \<noteq> OpenChan"
  "MatchID (l_m (scanner_end lb 1 l)) = ''''"
  by (simp_all add: scanner_end_def close_matches_def)

lemma scanner_end_2: "l_opts (scanner_end lb 2 l) = l_opts l" "l_matches_chan (scanner_end lb 2 l) = l_matches_chan l"
  "l_matches (scanner_end lb 2 l) = l_matches l" "l_m (scanner_end lb 2 l) = l_m l"
  by (simp_all add: scanner_end_def)

lemma drained_move:
  assumes "drained opts s" and "rests (s_lobby s) (s_lobby t)" and "s_colls t = s_colls s"
    and "\<not> s_out t \<Longrightarrow> \<not> s_out s \<and> l_m (s_lobby t) = l_m (s_lobby s)"
  shows "drained opts t"
  using assms by (auto simp: drained_def rests_def)

lemma step_drained:
  assumes "lstep lb s t" and "sys_ok s" and "drained opts s"
  shows "drained opts t"
proof -
  have p: "players_ok (l_players (s_lobby s))" using sys_ok_lobby [OF assms(2)] by (simp add: lobby_ok_def)
  note mv = drained_move [OF assms(3)]
  have o: "s_out s \<Longrightarrow> l_matches_chan (s_lobby s) = OpenChan" using assms(2) by (simp add: sys_ok_def)
  show ?thesis
    using assms(1)
  proof (cases rule: lstep.cases)
    case (OutLine line)
    then show ?thesis using rests_lobby.R_scan_line [OF p] by (intro mv) simp_all
  next
    case OutEnd
    with o assms(3) show ?thesis using scanner_end_1 [of lb "s_lobby s"] by (auto simp: drained_def)
  next
    case (ErrLine line)
    then show ?thesis using rests_lobby.R_scan_line [OF p] stderr_line_frame by (intro mv) simp_all
  next
    case ErrEnd
    then show ?thesis using scanner_end_2 [of lb "s_lobby s"] by (intro mv) (simp_all add: rests_def)
  next
    case (Collect m ms)
    with assms(3) show ?thesis by (auto simp: drained_def)
  next
    case CollEnd
    with assms(3) show ?thesis by (simp add: drained_def)
  next
    case (Tick lastup now lastup' l)
    then show ?thesis using tick_frame [OF Tick(3)] by (intro mv) (simp_all add: rests_def)
  next
    case (TickStop lastup now lastup' l)
    then show ?thesis using tick_frame [OF TickStop(3)] by (intro mv) (simp_all add: rests_def)
  next
    case (WatchDone lastup)
    then show ?thesis by (intro mv) (simp_all add: rests_def)
  next
    case (SpecUpdate sp)
    then show ?thesis by (intro mv) (simp_all add: rests_def)
  next
    case (Exit pid werr)
    then show ?thesis by (intro mv) (simp_all add: rests_def game_exit_def drain_def case_prod_unfold)
  next
    case Finish
    then show ?thesis using alloc_done_frame
      by (intro mv) (simp_all add: rests_def finish_def case_prod_unfold)
  qed
qed

lemma steps_drained: "lsteps lb s t \<Longrightarrow> sys_ok s \<Longrightarrow> drained opts s \<Longrightarrow> drained opts t"
  by (induction rule: lsteps.induct) (auto intro: step_drained sys_steps)

lemma start_drained:
  assumes "l_matches l = []" and "l_matches_chan l \<noteq> OpenChan" and "MatchID (l_m l) = ''''"
  shows "drained (l_opts l) (runc_start lb hs start l)"
proof -
  obtain e h l1 where a: "alloc hs l = (e, h, l1)" by (metis prod_cases3)
  have o: "l_opts l1 = l_opts l" using alloc_cases [OF a] by (auto simp: calm_def split: if_splits)
  show ?thesis
  proof (cases e)
    case (Some x)
    then have "calm l l1" using alloc_cases [OF a] by auto
    then show ?thesis using Some assms by (simp add: runc_start_def a case_prod_unfold drained_def calm_def)
  next
    case None
    then show ?thesis
      using o by (simp add: runc_start_def a runc_begin_def Let_def case_prod_unfold drain_def drained_def split: sum.split)
  qed
qed

text \<open>C12. No match is left behind: when a run with a log directory has ended, however its goroutines were
  interleaved and however it ended, the queue of the collectors is empty and no match is in progress.\<close>

theorem no_match_is_left:
  assumes "lobby_Run lb hs start clk ce opts d (Some l) r" and "LogDir opts \<noteq> ''''"
  shows "l_matches l = [] \<and> MatchID (l_m l) = ''''"
  using assms(1)
proof (rule lobby_Run_cases)
  fix t
  assume t: "Some l = Some (s_lobby t)" "lsteps lb (runc_start lb hs start (fresh_lobby opts d clk)) t" "s_phase t = Stopped"
  have ok: "sys_ok (runc_start lb hs start (fresh_lobby opts d clk))" by (rule start_ok [OF fresh_ok])
  have "drained (l_opts (fresh_lobby opts d clk)) (runc_start lb hs start (fresh_lobby opts d clk))"
    by (rule start_drained) (simp_all add: fresh_lobby_def)
  from steps_drained [OF t(2) ok this [unfolded fresh_simps]] have dr: "drained opts t" .
  have st: "\<not> s_out t \<and> s_colls t = 0" using sys_steps [OF t(2) ok] t(3) by (simp add: sys_ok_def)
  with dr st t(1) assms(2) show ?thesis by (simp add: drained_def)
qed simp_all

theorem no_match_is_left_witness:
  "\<exists>l r xs. lobby_Run sample_lib good_host (Inr 42) sample_clock None sample_options sample_disk (Some l) r
    \<and> l_out l = (1, ''hello'') # xs \<and> l_matches l = []"
proof -
  obtain l r xs where l: "lobby_Run sample_lib good_host (Inr 42) sample_clock None sample_options sample_disk (Some l) r"
    "l_out l = (1, ''hello'') # xs" using sample_run by blast
  have "LogDir sample_options \<noteq> ''''" by (simp add: sample_options_def)
  from no_match_is_left [OF l(1) this] l show ?thesis by blast
qed

end
